theory Spec2Isabelle
  imports Main "HOL-Library.Word"
begin

unbundle bit_operations_syntax

section \<open>The SMI2021 bootloader driver (smi2021\_bl.c)\<close>

text \<open>
  A shallow embedding of the kernel module \<^verbatim>\<open>smi2021_bl.c\<close>: the firmware upload
  \<^verbatim>\<open>smi2021_load_firmware\<close>, the selection \<^verbatim>\<open>smi2021_choose_firmware\<close>, the probe
  callback \<^verbatim>\<open>smi2021_bootloader_probe\<close> and the disconnect callback
  \<^verbatim>\<open>smi2021_bootloader_disconnect\<close>.

  The module's file-scope variables (\<^verbatim>\<open>firmware_version\<close>, \<^verbatim>\<open>available_fw\<close>,
  \<^verbatim>\<open>firmware\<close>, \<^verbatim>\<open>firmwares\<close>) are the fields of one record that every function
  takes and returns.  The kernel services the module calls (\<^verbatim>\<open>usb_control_msg\<close>,
  \<^verbatim>\<open>request_firmware\<close>, \<^verbatim>\<open>release_firmware\<close>, \<^verbatim>\<open>kzalloc\<close>) are not part of the
  module: their answers are given by an environment, and every call is appended to a log
  kept in the same record, so that a theorem can say which calls were made and in which
  order.
\<close>

subsection \<open>Constants\<close>

definition FIRMWARE_CHUNK_SIZE :: nat where
  "FIRMWARE_CHUNK_SIZE = 62"

definition FIRMWARE_HEADER_SIZE :: nat where
  "FIRMWARE_HEADER_SIZE = 2"

text \<open>The two error numbers of \<^verbatim>\<open>errno.h\<close> that the module names.\<close>

definition ENOENT :: int where
  "ENOENT = 2"

definition ENODEV :: int where
  "ENODEV = 19"

subsection \<open>Data\<close>

type_synonym byte = "8 word"
type_synonym u16 = "16 word"

text \<open>
  \<^verbatim>\<open>struct firmware\<close> is a block of bytes with its size; the bytes are the image and
  \<^verbatim>\<open>size\<close> is their number.  A pointer to it is an option, \<open>None\<close> being \<^verbatim>\<open>NULL\<close>.
\<close>

type_synonym firmware = "byte list"

definition fw_size :: "firmware \<Rightarrow> nat" where
  "fw_size fw = length fw"

text \<open>\<^verbatim>\<open>struct smi2021_firmware\<close>.\<close>

record smi2021_firmware =
  id_fw :: int
  name :: string
  found :: int

text \<open>
  A control transfer as \<^verbatim>\<open>usb_control_msg\<close> receives it.  \<open>payload\<close> is what the
  host sends: the first \<open>wsize\<close> bytes of the buffer for an OUT transfer, nothing for an
  IN transfer.
\<close>

datatype usb_pipe = Usb_rcvctrlpipe nat | Usb_sndctrlpipe nat

datatype usb_dir = USB_DIR_OUT | USB_DIR_IN

datatype usb_type = USB_TYPE_STANDARD | USB_TYPE_CLASS | USB_TYPE_VENDOR

datatype usb_recip = USB_RECIP_DEVICE | USB_RECIP_INTERFACE | USB_RECIP_ENDPOINT

record ctrl_msg =
  pipe :: usb_pipe
  request :: byte
  requesttype :: "usb_dir \<times> usb_type \<times> usb_recip"
  wvalue :: u16
  windex :: u16
  payload :: "byte list"
  wsize :: nat
  timeout :: nat

text \<open>Calls of the firmware loader, as they are logged.\<close>

datatype fw_call =
  Request_firmware string
  | Release_firmware "firmware option"

text \<open>
  The module's variables and the two logs.  \<open>firmware\<close> is the array of pointers
  \<^verbatim>\<open>firmware[ARRAY_SIZE(available_fw)]\<close>, \<open>firmwares\<close> the index of the last slot in
  use (\<open>-1\<close> when none is).
\<close>

record world =
  firmware_version :: "32 word"
  available_fw :: "smi2021_firmware list"
  firmware :: "firmware option list"
  firmwares :: int
  usb_log :: "ctrl_msg list"
  fw_log :: "fw_call list"

text \<open>
  The environment: whether \<^verbatim>\<open>kzalloc\<close> finds memory, the byte order of the host, the
  device, and the firmware loader.  The device answers a control transfer with the return
  value of \<^verbatim>\<open>usb_control_msg\<close> (negative on a transport error, otherwise the number of
  bytes transferred) and the bytes it sends back; its answer may depend on every transfer
  made before.  The loader answers a file name with the return value of
  \<^verbatim>\<open>request_firmware\<close> and the pointer it stores.
\<close>

record env =
  kzalloc_ok :: bool
  big_endian :: bool
  usb_reply :: "ctrl_msg list \<Rightarrow> ctrl_msg \<Rightarrow> int \<times> byte list"
  fw_reply :: "string \<Rightarrow> int \<times> firmware option"

text \<open>A pointer to the device; \<open>None\<close> is \<^verbatim>\<open>NULL\<close>.\<close>

datatype usb_device = Usb_device

text \<open>What C leaves undefined and the kernel answers with an oops.\<close>

datatype fault = Null_pointer_dereference | Index_out_of_bounds

subsection \<open>Kernel services\<close>

definition kzalloc :: "env \<Rightarrow> nat \<Rightarrow> byte list option" where
  "kzalloc e n = (if kzalloc_ok e then Some (replicate n 0) else None)"

text \<open>A 16-bit variable in memory, in the byte order of the host.\<close>

definition store_u16 :: "bool \<Rightarrow> u16 \<Rightarrow> byte list" where
  "store_u16 be x =
     (if be then [ucast (drop_bit 8 x), ucast x] else [ucast x, ucast (drop_bit 8 x)])"

definition load_u16 :: "bool \<Rightarrow> byte list \<Rightarrow> u16" where
  "load_u16 be bs =
     (if be then push_bit 8 (ucast (bs ! 0)) OR ucast (bs ! 1)
      else push_bit 8 (ucast (bs ! 1)) OR ucast (bs ! 0))"

definition swab16 :: "u16 \<Rightarrow> u16" where
  "swab16 x = push_bit 8 x OR drop_bit 8 x"

definition cpu_to_be16 :: "bool \<Rightarrow> u16 \<Rightarrow> u16" where
  "cpu_to_be16 be x = (if be then x else swab16 x)"

definition cpu_to_le16 :: "bool \<Rightarrow> u16 \<Rightarrow> u16" where
  "cpu_to_le16 be x = (if be then swab16 x else x)"

text \<open>
  \<^verbatim>\<open>usb_control_msg\<close>: the transfer is logged, the device answers, and for an IN
  transfer the bytes received overwrite the start of the buffer.  The result is the
  return value, the buffer afterwards and the new state.
\<close>

definition usb_control_msg ::
  "env \<Rightarrow> usb_pipe \<Rightarrow> byte \<Rightarrow> usb_dir \<times> usb_type \<times> usb_recip \<Rightarrow> u16 \<Rightarrow> u16 \<Rightarrow>
   byte list \<Rightarrow> nat \<Rightarrow> nat \<Rightarrow> world \<Rightarrow> int \<times> byte list \<times> world" where
  "usb_control_msg e p req rt v ix buf sz tmo w =
     (let m = \<lparr>pipe = p, request = req, requesttype = rt, wvalue = v, windex = ix,
               payload = (if fst rt = USB_DIR_OUT then take sz buf else []),
               wsize = sz, timeout = tmo\<rparr>;
          (rc, reply) = usb_reply e (usb_log w) m;
          got = take (min sz (length buf)) reply;
          buf' = (if fst rt = USB_DIR_IN then got @ drop (length got) buf else buf)
      in (rc, buf', w\<lparr>usb_log := usb_log w @ [m]\<rparr>))"

subsection \<open>smi2021\_load\_firmware\<close>

text \<open>
  The loop of lines 133 to 146.  \<open>i\<close> is the loop variable and \<open>chunk\<close> the buffer,
  whose bytes from \<open>FIRMWARE_HEADER_SIZE\<close> on are overwritten in every round.  The result
  is \<open>(Some rc, w)\<close> when a transfer failed with \<open>rc\<close> and the loop was left, and
  \<open>(None, w)\<close> when the loop ran to its end.
\<close>

function upload_loop ::
  "env \<Rightarrow> firmware \<Rightarrow> nat \<Rightarrow> byte list \<Rightarrow> nat \<Rightarrow> world \<Rightarrow> int option \<times> world" where
  "upload_loop e fw size' chunk i w =
     (if i < fw_size fw div FIRMWARE_CHUNK_SIZE then
        (let chunk' = take FIRMWARE_HEADER_SIZE chunk
                      @ take FIRMWARE_CHUNK_SIZE (drop (i * FIRMWARE_CHUNK_SIZE) fw)
                      @ drop (FIRMWARE_HEADER_SIZE + FIRMWARE_CHUNK_SIZE) chunk;
             (rc, buf, w') = usb_control_msg e (Usb_sndctrlpipe 0x00) 0x01
                               (USB_DIR_OUT, USB_TYPE_VENDOR, USB_RECIP_DEVICE)
                               0x0005 0x0000 chunk' size' 1000 w
         in if rc < 0 then (Some rc, w') else upload_loop e fw size' buf (i + 1) w')
      else (None, w))"
  by pat_completeness auto
termination
  by (relation "measure (\<lambda>(e, fw, size', chunk, i, w). fw_size fw div FIRMWARE_CHUNK_SIZE - i)")
     auto

declare upload_loop.simps [simp del]

text \<open>
  The function, lines 84 to 164.  The result is \<open>Inl\<close> of a fault, or \<open>Inr (rc, w)\<close>
  when the function returns \<open>rc\<close> and leaves the state \<open>w\<close>.  When \<^verbatim>\<open>kzalloc\<close>
  returns \<^verbatim>\<open>NULL\<close>, the assignments to \<^verbatim>\<open>chunk[0]\<close> and \<^verbatim>\<open>chunk[1]\<close> of lines 97
  and 98 write through the null pointer; the test of line 100 comes after them and is
  never reached with a null pointer.  \<^verbatim>\<open>kfree\<close> and the log messages change nothing of
  the state modelled here.  Sizes and the loop index are natural numbers: an image of
  \<open>2^31\<close> chunks or more, on which the \<^verbatim>\<open>int\<close> index would overflow, is not
  considered.
\<close>

definition smi2021_load_firmware ::
  "env \<Rightarrow> usb_device option \<Rightarrow> firmware option \<Rightarrow> world \<Rightarrow> fault + (int \<times> world)" where
  "smi2021_load_firmware e udev fwp w =
     (case udev of
        None \<Rightarrow> Inr (0, w)
      | Some dev \<Rightarrow>
         (let size' = FIRMWARE_CHUNK_SIZE + FIRMWARE_HEADER_SIZE in
          case kzalloc e size' of
            None \<Rightarrow> Inl Null_pointer_dereference
          | Some chunk0 \<Rightarrow>
             (let chunk = chunk0[0 := 0x05, 1 := 0xff] in
              case fwp of
                None \<Rightarrow> Inr (- ENODEV, w)
              | Some fw \<Rightarrow>
                 if fw_size fw mod FIRMWARE_CHUNK_SIZE \<noteq> 0 then Inr (- ENODEV, w)
                 else
                   (let (rc, ack, w1) = usb_control_msg e (Usb_rcvctrlpipe 0x80) 0x01
                                          (USB_DIR_IN, USB_TYPE_VENDOR, USB_RECIP_DEVICE)
                                          0x0001 0x0000 (store_u16 (big_endian e) 0x0000) 2 1000 w
                    in if rc < 0 then Inr (rc, w1)
                       else if cpu_to_be16 (big_endian e) (load_u16 (big_endian e) ack) \<noteq> 0x0107
                       then Inr (rc, w1)
                       else
                         (case upload_loop e fw size' chunk 0 w1 of
                            (Some rc, w2) \<Rightarrow> Inr (rc, w2)
                          | (None, w2) \<Rightarrow>
                             (let (rc, buf, w3) =
                                    usb_control_msg e (Usb_sndctrlpipe 0x00) 0x01
                                      (USB_DIR_OUT, USB_TYPE_VENDOR, USB_RECIP_DEVICE)
                                      0x0007 0x0000
                                      (store_u16 (big_endian e) (cpu_to_le16 (big_endian e) 0x0007))
                                      2 1000 w2
                              in if rc < 0 then Inr (rc, w3) else Inr (0, w3)))))))"

subsection \<open>The firmware loader\<close>

text \<open>
  \<^verbatim>\<open>request_firmware(&firmware[slot], name, dev)\<close> stores a pointer in the slot and
  returns 0, or stores \<^verbatim>\<open>NULL\<close> and returns an error.  \<^verbatim>\<open>release_firmware\<close> gives
  an image back.
\<close>

definition request_firmware :: "env \<Rightarrow> nat \<Rightarrow> string \<Rightarrow> world \<Rightarrow> int \<times> world" where
  "request_firmware e slot nm w =
     (let (rc, p) = fw_reply e nm
      in (rc, w\<lparr>firmware := (firmware w)[slot := (if rc = 0 then p else None)],
                fw_log := fw_log w @ [Request_firmware nm]\<rparr>))"

definition release_firmware :: "firmware option \<Rightarrow> world \<Rightarrow> world" where
  "release_firmware p w = w\<lparr>fw_log := fw_log w @ [Release_firmware p]\<rparr>"

subsection \<open>smi2021\_choose\_firmware\<close>

text \<open>
  The loop of lines 169 to 177 and, when it finds no descriptor, the return of 0 of line
  181.  \<^verbatim>\<open>firmware_version\<close> is unsigned and \<^verbatim>\<open>id\<close> is an \<^verbatim>\<open>int\<close>, so the comparison
  converts \<^verbatim>\<open>id\<close> to unsigned.
\<close>

function choose_loop :: "env \<Rightarrow> usb_device option \<Rightarrow> nat \<Rightarrow> world \<Rightarrow> fault + (int \<times> world)" where
  "choose_loop e udev i w =
     (if i < length (available_fw w) then
        (let found' = found (available_fw w ! i);
             id' = id_fw (available_fw w ! i)
         in if firmware_version w = word_of_int id' \<and> 0 \<le> found' then
              (if found' < int (length (firmware w))
               then smi2021_load_firmware e udev (firmware w ! nat found') w
               else Inl Index_out_of_bounds)
            else choose_loop e udev (i + 1) w)
      else Inr (0, w))"
  by pat_completeness auto
termination
  by (relation "measure (\<lambda>(e, udev, i, w). length (available_fw w) - i)") auto

declare choose_loop.simps [simp del]

definition smi2021_choose_firmware ::
  "env \<Rightarrow> usb_device option \<Rightarrow> world \<Rightarrow> fault + (int \<times> world)" where
  "smi2021_choose_firmware e udev w = choose_loop e udev 0 w"

subsection \<open>smi2021\_bootloader\_probe\<close>

text \<open>
  One round of the loop of lines 191 to 208, for the descriptor \<open>i\<close>.  \<open>Inr (None, w)\<close>
  goes on to the next round and \<open>Inr (Some rc, w)\<close> is the jump to \<^verbatim>\<open>err_out\<close>.
\<close>

definition probe_body :: "env \<Rightarrow> nat \<Rightarrow> world \<Rightarrow> fault + (int option \<times> world)" where
  "probe_body e i w =
     (let slot = firmwares w + 1 in
      if slot < 0 \<or> int (length (firmware w)) \<le> slot then Inl Index_out_of_bounds
      else
        (let (rc, w1) = request_firmware e (nat slot) (name (available_fw w ! i)) w
         in if rc = 0 then
              (let w2 = w1\<lparr>firmwares := firmwares w1 + 1\<rparr>
               in Inr (None, w2\<lparr>available_fw :=
                               (available_fw w2)[i := (available_fw w2 ! i)\<lparr>found := firmwares w2\<rparr>]\<rparr>))
            else if rc = - ENOENT then
              Inr (None, w1\<lparr>available_fw :=
                             (available_fw w1)[i := (available_fw w1 ! i)\<lparr>found := - 1\<rparr>]\<rparr>)
            else Inr (Some rc, w1)))"

text \<open>The loop runs over the \<open>n\<close> descriptors of the table, \<open>n\<close> being \<^verbatim>\<open>ARRAY_SIZE(available_fw)\<close>.\<close>

function probe_loop :: "env \<Rightarrow> nat \<Rightarrow> nat \<Rightarrow> world \<Rightarrow> fault + (int option \<times> world)" where
  "probe_loop e n i w =
     (if i < n then
        (case probe_body e i w of
           Inl f \<Rightarrow> Inl f
         | Inr (Some rc, w') \<Rightarrow> Inr (Some rc, w')
         | Inr (None, w') \<Rightarrow> probe_loop e n (i + 1) w')
      else Inr (None, w))"
  by pat_completeness auto
termination
  by (relation "measure (\<lambda>(e, n, i, w). n - i)") auto

declare probe_loop.simps [simp del]

text \<open>Lines 210 to 223: what is done with the firmwares that were found.\<close>

definition probe_select :: "env \<Rightarrow> usb_device \<Rightarrow> world \<Rightarrow> fault + (int \<times> world)" where
  "probe_select e udev w =
     (if firmwares w < 0 then Inr (- ENODEV, w)
      else if firmwares w = 0 then
        (if length (firmware w) = 0 then Inl Index_out_of_bounds
         else
           (case smi2021_load_firmware e (Some udev) (firmware w ! 0) w of
              Inl f \<Rightarrow> Inl f
            | Inr (rc, w') \<Rightarrow> if rc < 0 then Inr (rc, w') else Inr (0, w')))
      else
        (case smi2021_choose_firmware e (Some udev) w of
           Inl f \<Rightarrow> Inl f
         | Inr (rc, w') \<Rightarrow> Inr (0, w')))"

definition smi2021_bootloader_probe :: "env \<Rightarrow> usb_device \<Rightarrow> world \<Rightarrow> fault + (int \<times> world)" where
  "smi2021_bootloader_probe e udev w =
     (case probe_loop e (length (available_fw w)) 0 w of
        Inl f \<Rightarrow> Inl f
      | Inr (Some rc, w') \<Rightarrow> Inr (rc, w')
      | Inr (None, w') \<Rightarrow> probe_select e udev w')"

subsection \<open>smi2021\_bootloader\_disconnect\<close>

text \<open>One round of the loop of lines 237 to 245, the loop, and the function.\<close>

definition disconnect_body :: "nat \<Rightarrow> world \<Rightarrow> fault + world" where
  "disconnect_body i w =
     (let f = found (available_fw w ! i)
      in if 0 \<le> f then
           (if f < int (length (firmware w)) then
              (let w1 = release_firmware (firmware w ! nat f) w;
                   w2 = w1\<lparr>firmware := (firmware w1)[nat f := None]\<rparr>
               in Inr (w2\<lparr>available_fw :=
                            (available_fw w2)[i := (available_fw w2 ! i)\<lparr>found := - 1\<rparr>]\<rparr>))
            else Inl Index_out_of_bounds)
         else Inr w)"

function disconnect_loop :: "nat \<Rightarrow> nat \<Rightarrow> world \<Rightarrow> fault + world" where
  "disconnect_loop n i w =
     (if i < n then
        (case disconnect_body i w of
           Inl f \<Rightarrow> Inl f
         | Inr w' \<Rightarrow> disconnect_loop n (i + 1) w')
      else Inr w)"
  by pat_completeness auto
termination
  by (relation "measure (\<lambda>(n, i, w). n - i)") auto

declare disconnect_loop.simps [simp del]

definition smi2021_bootloader_disconnect :: "world \<Rightarrow> fault + world" where
  "smi2021_bootloader_disconnect w =
     (case disconnect_loop (length (available_fw w)) 0 w of
        Inl f \<Rightarrow> Inl f
      | Inr w' \<Rightarrow> Inr (w'\<lparr>firmwares := - 1\<rparr>))"

subsection \<open>The module when it is loaded\<close>

text \<open>
  The initial values of the module's variables: the table of the three known firmwares
  (their \<^verbatim>\<open>found\<close> fields are not initialised, so they are 0), no pointer, and
  \<^verbatim>\<open>firmwares = -1\<close>.  \<open>v\<close> is the module parameter \<^verbatim>\<open>firmware_version\<close>, 0 when the
  operator gave none.
\<close>

definition module_init :: "32 word \<Rightarrow> world" where
  "module_init v =
     \<lparr>firmware_version = v,
      available_fw =
        [\<lparr>id_fw = 0x3c, name = ''smi2021_3c.bin'', found = 0\<rparr>,
         \<lparr>id_fw = 0x3e, name = ''smi2021_3e.bin'', found = 0\<rparr>,
         \<lparr>id_fw = 0x3f, name = ''smi2021_3f.bin'', found = 0\<rparr>],
      firmware = [None, None, None],
      firmwares = - 1,
      usb_log = [],
      fw_log = []\<rparr>"

section \<open>What the specification expects\<close>

subsection \<open>The three transfers of the protocol\<close>

text \<open>
  The handshake read, the write of the chunk \<open>i\<close> of an image and the completion write,
  with the literal parameters of the specification's section 6.
\<close>

definition handshake_msg :: ctrl_msg where
  "handshake_msg =
     \<lparr>pipe = Usb_rcvctrlpipe 0x80, request = 0x01,
      requesttype = (USB_DIR_IN, USB_TYPE_VENDOR, USB_RECIP_DEVICE),
      wvalue = 0x0001, windex = 0x0000, payload = [], wsize = 2, timeout = 1000\<rparr>"

definition chunk_msg :: "firmware \<Rightarrow> nat \<Rightarrow> ctrl_msg" where
  "chunk_msg fw i =
     \<lparr>pipe = Usb_sndctrlpipe 0x00, request = 0x01,
      requesttype = (USB_DIR_OUT, USB_TYPE_VENDOR, USB_RECIP_DEVICE),
      wvalue = 0x0005, windex = 0x0000,
      payload = [0x05, 0xff] @ take 62 (drop (62 * i) fw), wsize = 64, timeout = 1000\<rparr>"

definition completion_msg :: ctrl_msg where
  "completion_msg =
     \<lparr>pipe = Usb_sndctrlpipe 0x00, request = 0x01,
      requesttype = (USB_DIR_OUT, USB_TYPE_VENDOR, USB_RECIP_DEVICE),
      wvalue = 0x0007, windex = 0x0000, payload = [0x07, 0x00], wsize = 2, timeout = 1000\<rparr>"

text \<open>Two bytes read as a big-endian 16-bit number.\<close>

definition be16 :: "byte \<Rightarrow> byte \<Rightarrow> u16" where
  "be16 b0 b1 = push_bit 8 (ucast b0) OR ucast b1"

subsection \<open>The catalog\<close>

text \<open>
  What the loader answers for a descriptor: its return value, whether that is success, and
  the pointer it stores.
\<close>

definition rc_of :: "env \<Rightarrow> smi2021_firmware \<Rightarrow> int" where
  "rc_of e d = fst (fw_reply e (name d))"

definition loads :: "env \<Rightarrow> smi2021_firmware \<Rightarrow> bool" where
  "loads e d \<longleftrightarrow> fst (fw_reply e (name d)) = 0"

definition image_for :: "env \<Rightarrow> smi2021_firmware \<Rightarrow> firmware option" where
  "image_for e d = snd (fw_reply e (name d))"

text \<open>
  The descriptors that have a slot, and the loaded-image table: the slots of the array
  up to the counter.
\<close>

definition present :: "world \<Rightarrow> smi2021_firmware list" where
  "present w = filter (\<lambda>d. 0 \<le> found d) (available_fw w)"

definition loaded :: "world \<Rightarrow> firmware option list" where
  "loaded w = take (nat (firmwares w + 1)) (firmware w)"

text \<open>
  The state the probe loop leaves behind: the array has one pointer per descriptor, and
  the descriptors that have a slot hold the slots \<open>0, 1, \<dots>, firmwares\<close> in the order
  of the table, every other descriptor holding \<open>-1\<close>.
\<close>

definition catalog_ok :: "world \<Rightarrow> bool" where
  "catalog_ok w \<longleftrightarrow>
     length (firmware w) = length (available_fw w) \<and> - 1 \<le> firmwares w \<and>
     map found (present w) = map int [0..<nat (firmwares w + 1)] \<and>
     (\<forall>d\<in>set (available_fw w). - 1 \<le> found d)"

subsection \<open>The selection policy\<close>

text \<open>
  The decision table of the specification's section 4.3, over the descriptors that are
  present.  The preference is optional; the first present descriptor whose identifier
  equals it is the match.
\<close>

datatype outcome =
  UploadOne "firmware option"
  | NoFirmwareAvailable
  | AmbiguousRequiresOperatorChoice

definition image_of :: "world \<Rightarrow> smi2021_firmware \<Rightarrow> firmware option" where
  "image_of w d = firmware w ! nat (found d)"

definition select :: "world \<Rightarrow> 32 word option \<Rightarrow> outcome" where
  "select w preferred_id =
     (case present w of
        [] \<Rightarrow> NoFirmwareAvailable
      | [d] \<Rightarrow> UploadOne (image_of w d)
      | d # d' # ds \<Rightarrow>
         (case preferred_id of
            None \<Rightarrow> AmbiguousRequiresOperatorChoice
          | Some p \<Rightarrow>
             (case filter (\<lambda>d. word_of_int (id_fw d) = p) (present w) of
                [] \<Rightarrow> AmbiguousRequiresOperatorChoice
              | m # ms \<Rightarrow> UploadOne (image_of w m))))"

subsection \<open>Devices, images and loaders to run the module on\<close>

definition image_one :: firmware where
  "image_one = replicate 62 0x11"

definition image_three :: firmware where
  "image_three = replicate 62 0x11 @ replicate 62 0x22 @ replicate 62 0x33"

definition image_odd :: firmware where
  "image_odd = replicate 63 0x11"

text \<open>The loader finds \<^verbatim>\<open>smi2021_3e.bin\<close> and no other file.\<close>

definition only_3e :: "string \<Rightarrow> int \<times> firmware option" where
  "only_3e nm = (if nm = ''smi2021_3e.bin'' then (0, Some image_three) else (- ENOENT, None))"

text \<open>A device that is ready and accepts every write.\<close>

definition device_ready :: env where
  "device_ready =
     \<lparr>kzalloc_ok = True, big_endian = False,
      usb_reply = (\<lambda>h m. if fst (requesttype m) = USB_DIR_IN then (2, [0x01, 0x07])
                          else (int (wsize m), [])),
      fw_reply = only_3e\<rparr>"

text \<open>A device that answers the handshake with two zero bytes.\<close>

definition device_not_ready :: env where
  "device_not_ready =
     \<lparr>kzalloc_ok = True, big_endian = False,
      usb_reply = (\<lambda>h m. if fst (requesttype m) = USB_DIR_IN then (2, [0x00, 0x00])
                          else (int (wsize m), [])),
      fw_reply = only_3e\<rparr>"

text \<open>
  A device that is ready, accepts the first chunk and times out on the second transfer
  after the handshake (\<open>-110\<close> is \<^verbatim>\<open>-ETIMEDOUT\<close>).
\<close>

definition device_stalls :: env where
  "device_stalls =
     \<lparr>kzalloc_ok = True, big_endian = False,
      usb_reply = (\<lambda>h m. if fst (requesttype m) = USB_DIR_IN then (2, [0x01, 0x07])
                          else if length h = 2 then (- 110, [])
                          else (int (wsize m), [])),
      fw_reply = only_3e\<rparr>"

text \<open>
  A loader that does not find \<^verbatim>\<open>smi2021_3c.bin\<close>, fails on \<^verbatim>\<open>smi2021_3e.bin\<close> with
  \<open>-5\<close> (\<^verbatim>\<open>-EIO\<close>) and would find \<^verbatim>\<open>smi2021_3f.bin\<close>.
\<close>

definition loader_broken :: "string \<Rightarrow> int \<times> firmware option" where
  "loader_broken nm =
     (if nm = ''smi2021_3c.bin'' then (- ENOENT, None)
      else if nm = ''smi2021_3e.bin'' then (- 5, None)
      else (0, Some image_one))"

definition device_broken :: env where
  "device_broken =
     \<lparr>kzalloc_ok = True, big_endian = False,
      usb_reply = (\<lambda>h m. if fst (requesttype m) = USB_DIR_IN then (2, [0x01, 0x07])
                          else (int (wsize m), [])),
      fw_reply = loader_broken\<rparr>"

text \<open>The state after the probe loop has run from \<open>module_init v\<close> with the loader \<open>only_3e\<close>.\<close>

definition catalog_3e :: "32 word \<Rightarrow> world" where
  "catalog_3e v =
     \<lparr>firmware_version = v,
      available_fw =
        [\<lparr>id_fw = 0x3c, name = ''smi2021_3c.bin'', found = - 1\<rparr>,
         \<lparr>id_fw = 0x3e, name = ''smi2021_3e.bin'', found = 0\<rparr>,
         \<lparr>id_fw = 0x3f, name = ''smi2021_3f.bin'', found = - 1\<rparr>],
      firmware = [Some image_three, None, None],
      firmwares = 0,
      usb_log = [],
      fw_log = [Request_firmware ''smi2021_3c.bin'', Request_firmware ''smi2021_3e.bin'',
                Request_firmware ''smi2021_3f.bin'']\<rparr>"

text \<open>The state after the probe loop has run with a loader that finds no file.\<close>

definition catalog_none :: world where
  "catalog_none =
     \<lparr>firmware_version = 0,
      available_fw =
        [\<lparr>id_fw = 0x3c, name = ''smi2021_3c.bin'', found = - 1\<rparr>,
         \<lparr>id_fw = 0x3e, name = ''smi2021_3e.bin'', found = - 1\<rparr>,
         \<lparr>id_fw = 0x3f, name = ''smi2021_3f.bin'', found = - 1\<rparr>],
      firmware = [None, None, None],
      firmwares = - 1,
      usb_log = [],
      fw_log = [Request_firmware ''smi2021_3c.bin'', Request_firmware ''smi2021_3e.bin'',
                Request_firmware ''smi2021_3f.bin'']\<rparr>"

text \<open>A state with two firmwares loaded, and the operator asking for \<open>0x3e\<close>.\<close>

definition catalog_two :: world where
  "catalog_two =
     \<lparr>firmware_version = 0x3e,
      available_fw =
        [\<lparr>id_fw = 0x3c, name = ''smi2021_3c.bin'', found = 0\<rparr>,
         \<lparr>id_fw = 0x3e, name = ''smi2021_3e.bin'', found = 1\<rparr>,
         \<lparr>id_fw = 0x3f, name = ''smi2021_3f.bin'', found = - 1\<rparr>],
      firmware = [Some image_one, Some image_three, None],
      firmwares = 1,
      usb_log = [],
      fw_log = [Request_firmware ''smi2021_3c.bin'', Request_firmware ''smi2021_3e.bin'',
                Request_firmware ''smi2021_3f.bin'']\<rparr>"

text \<open>A device on which every transfer times out.\<close>

definition device_dead :: env where
  "device_dead =
     \<lparr>kzalloc_ok = True, big_endian = False,
      usb_reply = (\<lambda>h m. (- 110, [])),
      fw_reply = only_3e\<rparr>"

text \<open>
  The state after a probe from \<open>module_init 0\<close> that loaded \<^verbatim>\<open>smi2021_3e.bin\<close> and
  failed at the handshake, and the state a second probe makes of it.
\<close>

definition catalog_failed :: world where
  "catalog_failed = (catalog_3e 0)\<lparr>usb_log := [handshake_msg]\<rparr>"

definition catalog_stale :: world where
  "catalog_stale =
     \<lparr>firmware_version = 0,
      available_fw =
        [\<lparr>id_fw = 0x3c, name = ''smi2021_3c.bin'', found = - 1\<rparr>,
         \<lparr>id_fw = 0x3e, name = ''smi2021_3e.bin'', found = 1\<rparr>,
         \<lparr>id_fw = 0x3f, name = ''smi2021_3f.bin'', found = - 1\<rparr>],
      firmware = [Some image_three, Some image_three, None],
      firmwares = 1,
      usb_log = [handshake_msg],
      fw_log = [Request_firmware ''smi2021_3c.bin'', Request_firmware ''smi2021_3e.bin'',
                Request_firmware ''smi2021_3f.bin'', Request_firmware ''smi2021_3c.bin'',
                Request_firmware ''smi2021_3e.bin'', Request_firmware ''smi2021_3f.bin'']\<rparr>"

text \<open>The state the disconnect makes of \<open>catalog_stale\<close>.\<close>

definition catalog_leak :: world where
  "catalog_leak =
     \<lparr>firmware_version = 0,
      available_fw =
        [\<lparr>id_fw = 0x3c, name = ''smi2021_3c.bin'', found = - 1\<rparr>,
         \<lparr>id_fw = 0x3e, name = ''smi2021_3e.bin'', found = - 1\<rparr>,
         \<lparr>id_fw = 0x3f, name = ''smi2021_3f.bin'', found = - 1\<rparr>],
      firmware = [Some image_three, None, None],
      firmwares = - 1,
      usb_log = [handshake_msg],
      fw_log = [Request_firmware ''smi2021_3c.bin'', Request_firmware ''smi2021_3e.bin'',
                Request_firmware ''smi2021_3f.bin'', Request_firmware ''smi2021_3c.bin'',
                Request_firmware ''smi2021_3e.bin'', Request_firmware ''smi2021_3f.bin'',
                Release_firmware (Some image_three)]\<rparr>"

text \<open>
  A ready device with a loader that finds no file, and the state its probe loop makes of
  \<open>catalog_failed\<close>.
\<close>

definition no_file :: "string \<Rightarrow> int \<times> firmware option" where
  "no_file nm = (- ENOENT, None)"

definition device_ready_no_file :: env where
  "device_ready_no_file =
     \<lparr>kzalloc_ok = True, big_endian = False,
      usb_reply = (\<lambda>h m. if fst (requesttype m) = USB_DIR_IN then (2, [0x01, 0x07])
                          else (int (wsize m), [])),
      fw_reply = no_file\<rparr>"

definition catalog_ghost :: world where
  "catalog_ghost =
     \<lparr>firmware_version = 0,
      available_fw =
        [\<lparr>id_fw = 0x3c, name = ''smi2021_3c.bin'', found = - 1\<rparr>,
         \<lparr>id_fw = 0x3e, name = ''smi2021_3e.bin'', found = - 1\<rparr>,
         \<lparr>id_fw = 0x3f, name = ''smi2021_3f.bin'', found = - 1\<rparr>],
      firmware = [Some image_three, None, None],
      firmwares = 0,
      usb_log = [handshake_msg],
      fw_log = [Request_firmware ''smi2021_3c.bin'', Request_firmware ''smi2021_3e.bin'',
                Request_firmware ''smi2021_3f.bin'', Request_firmware ''smi2021_3c.bin'',
                Request_firmware ''smi2021_3e.bin'', Request_firmware ''smi2021_3f.bin'']\<rparr>"

section \<open>Auxiliary definitions for the proofs\<close>

text \<open>The three ways a round of the probe loop changes the state.\<close>

definition found_step :: "env \<Rightarrow> nat \<Rightarrow> world \<Rightarrow> world" where
  "found_step e i w =
     w\<lparr>firmware := (firmware w)[nat (firmwares w + 1) := image_for e (available_fw w ! i)],
       fw_log := fw_log w @ [Request_firmware (name (available_fw w ! i))],
       firmwares := firmwares w + 1,
       available_fw := (available_fw w)[i := (available_fw w ! i)\<lparr>found := firmwares w + 1\<rparr>]\<rparr>"

definition absent_step :: "env \<Rightarrow> nat \<Rightarrow> world \<Rightarrow> world" where
  "absent_step e i w =
     w\<lparr>firmware := (firmware w)[nat (firmwares w + 1) := None],
       fw_log := fw_log w @ [Request_firmware (name (available_fw w ! i))],
       available_fw := (available_fw w)[i := (available_fw w ! i)\<lparr>found := - 1\<rparr>]\<rparr>"

definition abort_step :: "env \<Rightarrow> nat \<Rightarrow> world \<Rightarrow> world" where
  "abort_step e i w =
     w\<lparr>firmware := (firmware w)[nat (firmwares w + 1) := None],
       fw_log := fw_log w @ [Request_firmware (name (available_fw w ! i))]\<rparr>"

text \<open>
  The invariant of the probe loop before the round \<open>i\<close>, \<open>ds\<close> being the descriptor
  table when the loop started.
\<close>

definition probe_inv :: "env \<Rightarrow> smi2021_firmware list \<Rightarrow> nat \<Rightarrow> world \<Rightarrow> bool" where
  "probe_inv e ds i w \<longleftrightarrow>
     length (available_fw w) = length ds \<and> length (firmware w) = length ds \<and>
     map name (available_fw w) = map name ds \<and>
     map id_fw (available_fw w) = map id_fw ds \<and>
     - 1 \<le> firmwares w \<and> firmwares w + 1 \<le> int i \<and>
     loaded w = map (image_for e) (filter (loads e) (take i ds)) \<and>
     map found (filter (\<lambda>d. 0 \<le> found d) (take i (available_fw w))) =
       map int [0..<nat (firmwares w + 1)] \<and>
     (\<forall>j<i. if loads e (ds ! j)
            then 0 \<le> found (available_fw w ! j) \<and> found (available_fw w ! j) \<le> firmwares w \<and>
                 firmware w ! nat (found (available_fw w ! j)) = image_for e (ds ! j)
            else found (available_fw w ! j) = - 1)"

text \<open>What the disconnect loop makes of a descriptor.\<close>

definition absent :: "smi2021_firmware \<Rightarrow> smi2021_firmware" where
  "absent d = (if 0 \<le> found d then d\<lparr>found := - 1\<rparr> else d)"

section \<open>Properties of the upload\<close>

subsection \<open>Byte order\<close>

lemma be16_load: "cpu_to_be16 be (load_u16 be [b0, b1]) = be16 b0 b1"
  unfolding be16_def
  apply (auto simp: cpu_to_be16_def load_u16_def swab16_def)
  apply (rule bit_word_eqI)
  apply (auto simp: bit_simps dest: bit_imp_le_length)
  done

lemma store_le16: "store_u16 be (cpu_to_le16 be 0x0007) = [0x07, 0x00]"
  by (simp add: store_u16_def cpu_to_le16_def swab16_def)

lemma store_zero: "store_u16 be 0 = [0, 0]"
  by (simp add: store_u16_def)

lemma be16_0107: "be16 0x01 0x07 = 0x0107"
  by (simp add: be16_def)

subsection \<open>Single transfers\<close>

lemma usb_out:
  "usb_control_msg e p req (USB_DIR_OUT, t, r) v ix buf sz tmo w =
     (fst (usb_reply e (usb_log w)
             \<lparr>pipe = p, request = req, requesttype = (USB_DIR_OUT, t, r), wvalue = v,
              windex = ix, payload = take sz buf, wsize = sz, timeout = tmo\<rparr>),
      buf,
      w\<lparr>usb_log := usb_log w @
           [\<lparr>pipe = p, request = req, requesttype = (USB_DIR_OUT, t, r), wvalue = v,
             windex = ix, payload = take sz buf, wsize = sz, timeout = tmo\<rparr>]\<rparr>)"
  by (simp add: usb_control_msg_def Let_def split: prod.splits)

lemma handshake_read:
  assumes "usb_reply e (usb_log w) handshake_msg = (rc, b0 # b1 # rest)"
  shows "usb_control_msg e (Usb_rcvctrlpipe 0x80) 0x01
           (USB_DIR_IN, USB_TYPE_VENDOR, USB_RECIP_DEVICE) 0x0001 0x0000
           (store_u16 (big_endian e) 0x0000) 2 1000 w =
         (rc, [b0, b1], w\<lparr>usb_log := usb_log w @ [handshake_msg]\<rparr>)"
  using assms
  by (simp add: usb_control_msg_def Let_def store_zero handshake_msg_def)

lemma completion_write:
  "usb_control_msg e (Usb_sndctrlpipe 0x00) 0x01
       (USB_DIR_OUT, USB_TYPE_VENDOR, USB_RECIP_DEVICE) 0x0007 0x0000
       (store_u16 (big_endian e) (cpu_to_le16 (big_endian e) 0x0007)) 2 1000 w =
     (fst (usb_reply e (usb_log w) completion_msg), [0x07, 0x00],
      w\<lparr>usb_log := usb_log w @ [completion_msg]\<rparr>)"
  by (simp add: usb_out store_le16 completion_msg_def)

lemma usb_control_msg_frame:
  "usb_control_msg e p req rt v ix buf sz tmo w = (rc, buf', w') \<Longrightarrow>
     firmware_version w' = firmware_version w \<and> available_fw w' = available_fw w \<and>
     firmware w' = firmware w \<and> firmwares w' = firmwares w \<and> fw_log w' = fw_log w"
  by (auto simp: usb_control_msg_def Let_def split: prod.splits)

lemma chunk_init:
  "take 2 ((replicate 64 (0::byte))[0 := 0x05, Suc 0 := 0xff]) = [0x05, 0xff]"
  "length ((replicate 64 (0::byte))[0 := 0x05, Suc 0 := 0xff]) = 64"
  by (simp_all add: numeral_eq_Suc)

subsection \<open>The loop\<close>

lemma upload_loop_ok:
  assumes "take 2 chunk = [0x05, 0xff]" "length chunk = 64" "length fw = 62 * N" "i \<le> N"
    and "\<forall>j. i \<le> j \<and> j < N \<longrightarrow>
           0 \<le> fst (usb_reply e (usb_log w @ map (chunk_msg fw) [i..<j]) (chunk_msg fw j))"
  shows "upload_loop e fw 64 chunk i w =
           (None, w\<lparr>usb_log := usb_log w @ map (chunk_msg fw) [i..<N]\<rparr>)"
  using assms
proof (induction "N - i" arbitrary: i chunk w)
  case 0
  then show ?case
    by (simp add: upload_loop.simps [of e fw 64 chunk i w] fw_size_def FIRMWARE_CHUNK_SIZE_def)
next
  case (Suc k)
  let ?m = "chunk_msg fw i"
  let ?chunk' = "[0x05, 0xff] @ take 62 (drop (62 * i) fw)"
  let ?w' = "w\<lparr>usb_log := usb_log w @ [?m]\<rparr>"
  from Suc.hyps(2) Suc.prems have lt: "i < N" by simp
  have len: "length (take 62 (drop (62 * i) fw)) = 62"
    using lt Suc.prems(3) by simp
  have step: "upload_loop e fw 64 chunk i w = upload_loop e fw 64 ?chunk' (Suc i) ?w'"
  proof -
    have ok: "0 \<le> fst (usb_reply e (usb_log w) ?m)"
      using Suc.prems(5) lt by (elim allE [of _ i]) simp
    show ?thesis
      using lt ok Suc.prems(1,2,3) len
      by (simp add: upload_loop.simps [of e fw 64 chunk i w] fw_size_def FIRMWARE_CHUNK_SIZE_def
            FIRMWARE_HEADER_SIZE_def usb_out chunk_msg_def mult.commute Let_def)
  qed
  have IH: "upload_loop e fw 64 ?chunk' (Suc i) ?w' =
        (None, ?w'\<lparr>usb_log := usb_log ?w' @ map (chunk_msg fw) [Suc i..<N]\<rparr>)"
  proof (rule Suc.hyps(1))
    show "k = N - Suc i" using Suc.hyps(2) by simp
    show "take 2 ?chunk' = [0x05, 0xff]" by simp
    show "length ?chunk' = 64" using len by simp
    show "length fw = 62 * N" by fact
    show "Suc i \<le> N" using lt by simp
    show "\<forall>j. Suc i \<le> j \<and> j < N \<longrightarrow>
           0 \<le> fst (usb_reply e (usb_log ?w' @ map (chunk_msg fw) [Suc i..<j]) (chunk_msg fw j))"
    proof (intro allI impI)
      fix j assume j: "Suc i \<le> j \<and> j < N"
      then have "[i..<j] = i # [Suc i..<j]" by (simp add: upt_conv_Cons)
      with Suc.prems(5) j show "0 \<le> fst (usb_reply e (usb_log ?w' @ map (chunk_msg fw) [Suc i..<j]) (chunk_msg fw j))"
        by (elim allE [of _ j]) simp
    qed
  qed
  show ?case
    using step IH lt by (simp add: upt_conv_Cons)
qed


lemma upload_loop_fail:
  assumes "take 2 chunk = [0x05, 0xff]" "length chunk = 64" "length fw = 62 * N"
    and "i \<le> k" "k < N"
    and "\<forall>j. i \<le> j \<and> j < k \<longrightarrow>
           0 \<le> fst (usb_reply e (usb_log w @ map (chunk_msg fw) [i..<j]) (chunk_msg fw j))"
    and "fst (usb_reply e (usb_log w @ map (chunk_msg fw) [i..<k]) (chunk_msg fw k)) < 0"
  shows "upload_loop e fw 64 chunk i w =
           (Some (fst (usb_reply e (usb_log w @ map (chunk_msg fw) [i..<k]) (chunk_msg fw k))),
            w\<lparr>usb_log := usb_log w @ map (chunk_msg fw) [i..<Suc k]\<rparr>)"
  using assms
proof (induction "k - i" arbitrary: i chunk w)
  case 0
  then have ik: "i = k" by simp
  have len: "length (take 62 (drop (62 * k) fw)) = 62"
    using "0.prems"(3,5) by simp
  show ?case
    using "0.prems"(1,2,3,5,7) len unfolding ik
    by (simp add: upload_loop.simps [of e fw 64 chunk k w] fw_size_def FIRMWARE_CHUNK_SIZE_def
          FIRMWARE_HEADER_SIZE_def usb_out chunk_msg_def mult.commute Let_def)
next
  case (Suc d)
  let ?m = "chunk_msg fw i"
  let ?chunk' = "[0x05, 0xff] @ take 62 (drop (62 * i) fw)"
  let ?w' = "w\<lparr>usb_log := usb_log w @ [?m]\<rparr>"
  from Suc.hyps(2) have lt: "i < k" by simp
  then have ltN: "i < N" using Suc.prems(5) by simp
  have len: "length (take 62 (drop (62 * i) fw)) = 62"
    using ltN Suc.prems(3) by simp
  have ik: "[i..<k] = i # [Suc i..<k]"
    using lt by (simp add: upt_conv_Cons)
  have step: "upload_loop e fw 64 chunk i w = upload_loop e fw 64 ?chunk' (Suc i) ?w'"
  proof -
    have ok: "0 \<le> fst (usb_reply e (usb_log w) ?m)"
      using Suc.prems(6) lt by (elim allE [of _ i]) simp
    show ?thesis
      using ltN ok Suc.prems(1,2,3) len
      by (simp add: upload_loop.simps [of e fw 64 chunk i w] fw_size_def FIRMWARE_CHUNK_SIZE_def
            FIRMWARE_HEADER_SIZE_def usb_out chunk_msg_def mult.commute Let_def)
  qed
  have IH: "upload_loop e fw 64 ?chunk' (Suc i) ?w' =
        (Some (fst (usb_reply e (usb_log ?w' @ map (chunk_msg fw) [Suc i..<k]) (chunk_msg fw k))),
         ?w'\<lparr>usb_log := usb_log ?w' @ map (chunk_msg fw) [Suc i..<Suc k]\<rparr>)"
  proof (rule Suc.hyps(1))
    show "d = k - Suc i" using Suc.hyps(2) by simp
    show "take 2 ?chunk' = [0x05, 0xff]" by simp
    show "length ?chunk' = 64" using len by simp
    show "length fw = 62 * N" by fact
    show "Suc i \<le> k" using lt by simp
    show "k < N" by fact
    show "\<forall>j. Suc i \<le> j \<and> j < k \<longrightarrow>
           0 \<le> fst (usb_reply e (usb_log ?w' @ map (chunk_msg fw) [Suc i..<j]) (chunk_msg fw j))"
    proof (intro allI impI)
      fix j assume j: "Suc i \<le> j \<and> j < k"
      then have "[i..<j] = i # [Suc i..<j]" by (simp add: upt_conv_Cons)
      with Suc.prems(6) j show "0 \<le> fst (usb_reply e (usb_log ?w' @ map (chunk_msg fw) [Suc i..<j]) (chunk_msg fw j))"
        by (elim allE [of _ j]) simp
    qed
    show "fst (usb_reply e (usb_log ?w' @ map (chunk_msg fw) [Suc i..<k]) (chunk_msg fw k)) < 0"
      using Suc.prems(7) ik by simp
  qed
  have "[i..<Suc k] = i # [Suc i..<Suc k]"
    using lt by (simp add: upt_conv_Cons)
  then show ?case
    using step IH ik by simp
qed

lemma upload_loop_frame:
  "upload_loop e fw sz chunk i w = (r, w') \<Longrightarrow>
     firmware_version w' = firmware_version w \<and> available_fw w' = available_fw w \<and>
     firmware w' = firmware w \<and> firmwares w' = firmwares w \<and> fw_log w' = fw_log w"
proof (induction e fw sz chunk i w rule: upload_loop.induct)
  case (1 e fw sz chunk i w)
  show ?case
  proof (cases "i < fw_size fw div FIRMWARE_CHUNK_SIZE")
    case False
    with "1.prems" show ?thesis
      by (simp add: upload_loop.simps [of e fw sz chunk i w])
  next
    case True
    let ?chunk' = "take FIRMWARE_HEADER_SIZE chunk
                      @ take FIRMWARE_CHUNK_SIZE (drop (i * FIRMWARE_CHUNK_SIZE) fw)
                      @ drop (FIRMWARE_HEADER_SIZE + FIRMWARE_CHUNK_SIZE) chunk"
    obtain rc buf w1 where u: "usb_control_msg e (Usb_sndctrlpipe 0x00) 0x01
                               (USB_DIR_OUT, USB_TYPE_VENDOR, USB_RECIP_DEVICE)
                               0x0005 0x0000 ?chunk' sz 1000 w = (rc, buf, w1)"
      by (cases "usb_control_msg e (Usb_sndctrlpipe 0x00) 0x01
                               (USB_DIR_OUT, USB_TYPE_VENDOR, USB_RECIP_DEVICE)
                               0x0005 0x0000 ?chunk' sz 1000 w") auto
    note f1 = usb_control_msg_frame [OF u]
    show ?thesis
    proof (cases "rc < 0")
      case True
      with \<open>i < fw_size fw div FIRMWARE_CHUNK_SIZE\<close> u "1.prems" f1 show ?thesis
        by (simp add: upload_loop.simps [of e fw sz chunk i w] Let_def)
    next
      case False
      with \<open>i < fw_size fw div FIRMWARE_CHUNK_SIZE\<close> u "1.prems"
      have "upload_loop e fw sz buf (i + 1) w1 = (r, w')"
        by (simp add: upload_loop.simps [of e fw sz chunk i w] Let_def)
      from "1.IH" [OF \<open>i < fw_size fw div FIRMWARE_CHUNK_SIZE\<close> refl refl u [symmetric] refl False this] f1
      show ?thesis by simp
    qed
  qed
qed

lemma load_firmware_runs:
  assumes "kzalloc_ok e" and "length fw = 62 * N"
    and "usb_reply e (usb_log w) handshake_msg = (rc0, 0x01 # 0x07 # rest)" and "0 \<le> rc0"
    and "\<forall>i<N. 0 \<le> fst (usb_reply e
                  (usb_log w @ handshake_msg # map (chunk_msg fw) [0..<i]) (chunk_msg fw i))"
    and "0 \<le> fst (usb_reply e
                  (usb_log w @ handshake_msg # map (chunk_msg fw) [0..<N]) completion_msg)"
  shows "smi2021_load_firmware e (Some dev) (Some fw) w =
           Inr (0, w\<lparr>usb_log := usb_log w @ handshake_msg # map (chunk_msg fw) [0..<N]
                                  @ [completion_msg]\<rparr>)"
proof -
  let ?w1 = "w\<lparr>usb_log := usb_log w @ [handshake_msg]\<rparr>"
  let ?chunk = "(replicate 64 (0::byte))[0 := 0x05, Suc 0 := 0xff]"
  have loop: "upload_loop e fw 64 ?chunk 0 ?w1 =
          (None, ?w1\<lparr>usb_log := usb_log ?w1 @ map (chunk_msg fw) [0..<N]\<rparr>)"
    using assms(5) by (intro upload_loop_ok chunk_init assms(2)) simp_all
  show ?thesis
    using assms(1,2,4,6)
    by (simp add: smi2021_load_firmware_def kzalloc_def FIRMWARE_CHUNK_SIZE_def
          FIRMWARE_HEADER_SIZE_def fw_size_def handshake_read [OF assms(3)] be16_load
          be16_0107 loop completion_write)
qed

lemma run_not_ready:
  "smi2021_load_firmware device_not_ready (Some Usb_device) (Some image_one) (module_init 0) =
     Inr (2, (module_init 0)\<lparr>usb_log := [handshake_msg]\<rparr>)"
proof -
  have "usb_reply device_not_ready (usb_log (module_init 0)) handshake_msg =
          (2, 0x00 # 0x00 # [])"
    by (simp add: device_not_ready_def handshake_msg_def)
  from handshake_read [OF this] show ?thesis
    by (simp add: smi2021_load_firmware_def kzalloc_def FIRMWARE_CHUNK_SIZE_def
          FIRMWARE_HEADER_SIZE_def fw_size_def be16_load be16_def device_not_ready_def
          image_one_def module_init_def)
qed

subsection \<open>Theorems about the upload\<close>

text \<open>
  C2.  When the device pointer is not null and the chunk buffer was allocated, an image
  whose length is not a multiple of 62 makes the upload return \<open>-ENODEV\<close> with the
  state unchanged: the size is checked before the first control transfer, and none is
  made.
\<close>

theorem load_firmware_wrong_size:
  assumes "kzalloc_ok e" and "length fw mod 62 \<noteq> 0"
  shows "smi2021_load_firmware e (Some dev) (Some fw) w = Inr (- ENODEV, w)"
  using assms
  by (simp add: smi2021_load_firmware_def kzalloc_def FIRMWARE_CHUNK_SIZE_def fw_size_def)

theorem load_firmware_wrong_size_witness:
  "smi2021_load_firmware device_ready (Some Usb_device) (Some image_odd) (module_init 0) =
     Inr (- 19, module_init 0)"
proof -
  have a: "kzalloc_ok device_ready"
    by (simp add: device_ready_def)
  have b: "length image_odd mod 62 \<noteq> 0"
    by (simp add: image_odd_def)
  from load_firmware_wrong_size [OF a b] show ?thesis
    by (simp add: ENODEV_def)
qed

text \<open>
  C3.  For an image of \<open>62 * N\<close> bytes, a device that answers the handshake read with
  the bytes \<open>01 07\<close> and accepts every write: the upload returns 0 and the transfers it
  made are the handshake read, the \<open>N\<close> chunk writes in ascending order and one
  completion write, each with the parameters and the payload of the specification
  (\<open>chunk_msg\<close>: request 1, value 5, index 0, 64 bytes, \<open>05 ff\<close> and the 62 bytes of the
  slice; \<open>completion_msg\<close>: request 1, value 7, the bytes \<open>07 00\<close>).
\<close>

theorem load_firmware_success:
  assumes "kzalloc_ok e" and "length fw = 62 * N"
    and "usb_reply e (usb_log w) handshake_msg = (rc0, 0x01 # 0x07 # rest)" and "0 \<le> rc0"
    and "\<forall>i<N. 0 \<le> fst (usb_reply e
                  (usb_log w @ handshake_msg # map (chunk_msg fw) [0..<i]) (chunk_msg fw i))"
    and "0 \<le> fst (usb_reply e
                  (usb_log w @ handshake_msg # map (chunk_msg fw) [0..<N]) completion_msg)"
  shows "smi2021_load_firmware e (Some dev) (Some fw) w =
           Inr (0, w\<lparr>usb_log := usb_log w @ handshake_msg # map (chunk_msg fw) [0..<N]
                                  @ [completion_msg]\<rparr>) \<and>
         (\<forall>i<N. payload (chunk_msg fw i) = [0x05, 0xff] @ take 62 (drop (62 * i) fw) \<and>
                 length (payload (chunk_msg fw i)) = 64)"
proof -
  have "\<forall>i<N. payload (chunk_msg fw i) = [0x05, 0xff] @ take 62 (drop (62 * i) fw) \<and>
               length (payload (chunk_msg fw i)) = 64"
    using assms(2) by (simp add: chunk_msg_def)
  with load_firmware_runs [OF assms] show ?thesis by blast
qed

theorem load_firmware_success_witness:
  "smi2021_load_firmware device_ready (Some Usb_device) (Some image_three) (module_init 0) =
     Inr (0, (module_init 0)
              \<lparr>usb_log := [handshake_msg, chunk_msg image_three 0, chunk_msg image_three 1,
                           chunk_msg image_three 2, completion_msg]\<rparr>)"
proof -
  have a: "kzalloc_ok device_ready"
    by (simp add: device_ready_def)
  have b: "length image_three = 62 * 3"
    by (simp add: image_three_def)
  have c: "usb_reply device_ready (usb_log (module_init 0)) handshake_msg = (2, 0x01 # 0x07 # [])"
    by (simp add: device_ready_def handshake_msg_def)
  have d: "(0::int) \<le> 2"
    by simp
  have f: "\<forall>i<3. 0 \<le> fst (usb_reply device_ready
              (usb_log (module_init 0) @ handshake_msg # map (chunk_msg image_three) [0..<i])
              (chunk_msg image_three i))"
    by (simp add: device_ready_def chunk_msg_def)
  have g: "0 \<le> fst (usb_reply device_ready
              (usb_log (module_init 0) @ handshake_msg # map (chunk_msg image_three) [0..<3])
              completion_msg)"
    by (simp add: device_ready_def completion_msg_def)
  have h: "[0..<3] = [0, 1, 2]"
    by (simp add: upt_rec numeral_3_eq_3)
  from load_firmware_success [OF a b c d f g, of Usb_device] show ?thesis
    by (simp add: h module_init_def)
qed

text \<open>
  C4.  As C3, but the write of the chunk \<open>i\<close> is the first transfer to fail, with the
  negative return value \<open>rc\<close>.  The upload returns \<open>rc\<close>, and its transfers are the
  handshake read and the writes of the chunks 0 to \<open>i\<close>: the failing write is the last
  transfer, it is made once, and neither a later chunk nor the completion write follows.
  The C function has no error value that carries the index; which chunk failed is read
  from the number of writes made.
\<close>

theorem load_firmware_chunk_fails:
  assumes "kzalloc_ok e" and "length fw = 62 * N" and "i < N"
    and "usb_reply e (usb_log w) handshake_msg = (rc0, 0x01 # 0x07 # rest)" and "0 \<le> rc0"
    and "\<forall>j<i. 0 \<le> fst (usb_reply e
                  (usb_log w @ handshake_msg # map (chunk_msg fw) [0..<j]) (chunk_msg fw j))"
    and "fst (usb_reply e
            (usb_log w @ handshake_msg # map (chunk_msg fw) [0..<i]) (chunk_msg fw i)) = rc"
    and "rc < 0"
  shows "smi2021_load_firmware e (Some dev) (Some fw) w =
           Inr (rc, w\<lparr>usb_log := usb_log w @ handshake_msg # map (chunk_msg fw) [0..<Suc i]\<rparr>)"
proof -
  let ?w1 = "w\<lparr>usb_log := usb_log w @ [handshake_msg]\<rparr>"
  let ?chunk = "(replicate 64 (0::byte))[0 := 0x05, Suc 0 := 0xff]"
  have loop: "upload_loop e fw 64 ?chunk 0 ?w1 =
          (Some (fst (usb_reply e (usb_log ?w1 @ map (chunk_msg fw) [0..<i]) (chunk_msg fw i))),
           ?w1\<lparr>usb_log := usb_log ?w1 @ map (chunk_msg fw) [0..<Suc i]\<rparr>)"
    using assms(6,7,8) by (intro upload_loop_fail [where N = N] chunk_init assms(2,3)) simp_all
  show ?thesis
    using assms(1,2,5,7)
    by (simp add: smi2021_load_firmware_def kzalloc_def FIRMWARE_CHUNK_SIZE_def
          FIRMWARE_HEADER_SIZE_def fw_size_def handshake_read [OF assms(4)] be16_load
          be16_0107 loop del: upt_Suc)
qed

theorem load_firmware_chunk_fails_witness:
  "smi2021_load_firmware device_stalls (Some Usb_device) (Some image_three) (module_init 0) =
     Inr (- 110, (module_init 0)
                  \<lparr>usb_log := [handshake_msg, chunk_msg image_three 0,
                               chunk_msg image_three 1]\<rparr>)"
proof -
  have a: "kzalloc_ok device_stalls"
    by (simp add: device_stalls_def)
  have b: "length image_three = 62 * 3"
    by (simp add: image_three_def)
  have c: "(1::nat) < 3"
    by simp
  have d: "usb_reply device_stalls (usb_log (module_init 0)) handshake_msg = (2, 0x01 # 0x07 # [])"
    by (simp add: device_stalls_def handshake_msg_def)
  have f: "(0::int) \<le> 2"
    by simp
  have g: "\<forall>j<1. 0 \<le> fst (usb_reply device_stalls
              (usb_log (module_init 0) @ handshake_msg # map (chunk_msg image_three) [0..<j])
              (chunk_msg image_three j))"
    by (simp add: device_stalls_def chunk_msg_def module_init_def)
  have h: "fst (usb_reply device_stalls
              (usb_log (module_init 0) @ handshake_msg # map (chunk_msg image_three) [0..<1])
              (chunk_msg image_three 1)) = - 110"
    by (simp add: device_stalls_def chunk_msg_def module_init_def)
  have k: "(- 110 :: int) < 0"
    by simp
  from load_firmware_chunk_fails [OF a b c d f g h k, of Usb_device] show ?thesis
    by (simp add: module_init_def)
qed

text \<open>
  C1.  What the upload does when the handshake read fails or brings two bytes that are
  not \<open>01 07\<close>: it returns the return value \<open>rc\<close> of the read, and the handshake read is
  the only transfer made, so nothing is written to the device.  When the read itself
  failed, \<open>rc\<close> is negative and the caller sees an error.  When the read succeeded and
  only the value is wrong, \<open>rc\<close> is the number of bytes read, which is not negative: the
  function logs the failure and leaves without setting an error code, and the caller,
  which tests \<open>rc < 0\<close>, takes the upload for a success.
\<close>

theorem load_firmware_handshake:
  assumes "kzalloc_ok e" and "length fw mod 62 = 0"
    and "usb_reply e (usb_log w) handshake_msg = (rc, b0 # b1 # rest)"
    and "rc < 0 \<or> be16 b0 b1 \<noteq> 0x0107"
  shows "smi2021_load_firmware e (Some dev) (Some fw) w =
           Inr (rc, w\<lparr>usb_log := usb_log w @ [handshake_msg]\<rparr>)"
  using assms(1,2,4)
  by (auto simp add: smi2021_load_firmware_def kzalloc_def FIRMWARE_CHUNK_SIZE_def
        FIRMWARE_HEADER_SIZE_def fw_size_def handshake_read [OF assms(3)] be16_load)

theorem load_firmware_handshake_witness:
  "smi2021_load_firmware device_not_ready (Some Usb_device) (Some image_one) (module_init 0) =
     Inr (2, (module_init 0)\<lparr>usb_log := [handshake_msg]\<rparr>)"
proof -
  have a: "kzalloc_ok device_not_ready"
    by (simp add: device_not_ready_def)
  have b: "length image_one mod 62 = 0"
    by (simp add: image_one_def)
  have c: "usb_reply device_not_ready (usb_log (module_init 0)) handshake_msg =
             (2, 0x00 # 0x00 # [])"
    by (simp add: device_not_ready_def handshake_msg_def)
  have d: "2 < (0::int) \<or> be16 0x00 0x00 \<noteq> 0x0107"
    by (simp add: be16_def)
  from load_firmware_handshake [OF a b c d, of Usb_device] show ?thesis
    by (simp add: module_init_def)
qed

text \<open>
  C9.  Whenever the upload returns, the module's variables are what they were: the
  parameter, the descriptor table, the table of loaded images and the counter, and the
  log of loader calls as well.  Only the log of control transfers can have grown.
\<close>

theorem load_firmware_frame:
  assumes "smi2021_load_firmware e udev fwp w = Inr (rc, w')"
  shows "firmware_version w' = firmware_version w \<and> available_fw w' = available_fw w \<and>
         firmware w' = firmware w \<and> firmwares w' = firmwares w \<and> fw_log w' = fw_log w"
  using assms
  by (auto simp: smi2021_load_firmware_def Let_def
      split: option.splits if_splits prod.splits
      dest!: usb_control_msg_frame upload_loop_frame)

theorem load_firmware_frame_witness:
  "firmware_version ((module_init 0)\<lparr>usb_log := [handshake_msg]\<rparr>) = firmware_version (module_init 0)
   \<and> available_fw ((module_init 0)\<lparr>usb_log := [handshake_msg]\<rparr>) = available_fw (module_init 0)
   \<and> firmware ((module_init 0)\<lparr>usb_log := [handshake_msg]\<rparr>) = firmware (module_init 0)
   \<and> firmwares ((module_init 0)\<lparr>usb_log := [handshake_msg]\<rparr>) = firmwares (module_init 0)
   \<and> fw_log ((module_init 0)\<lparr>usb_log := [handshake_msg]\<rparr>) = fw_log (module_init 0)"
  by (rule load_firmware_frame [OF run_not_ready])

text \<open>
  C10.  Called with a null device pointer, the upload returns 0, the value of success,
  whatever the image is, and makes no control transfer: the state it returns, logs
  included, is the state it was given.
\<close>

theorem load_firmware_null_device:
  "smi2021_load_firmware e None fwp w = Inr (0, w)"
  by (simp add: smi2021_load_firmware_def)

section \<open>Properties of the probe\<close>

subsection \<open>The loop over the descriptors\<close>

lemma probe_body_eq:
  assumes "0 \<le> firmwares w + 1" "firmwares w + 1 < int (length (firmware w))"
  shows "probe_body e i w =
     (let rc = fst (fw_reply e (name (available_fw w ! i))) in
      if rc = 0 then Inr (None, found_step e i w)
      else if rc = - ENOENT then Inr (None, absent_step e i w)
      else Inr (Some rc, abort_step e i w))"
  using assms
  by (auto simp: probe_body_def request_firmware_def Let_def found_step_def absent_step_def
      abort_step_def image_for_def split: prod.splits)

lemma map_name_found_update:
  "map name (xs[i := (xs ! i)\<lparr>found := v\<rparr>]) = map name xs"
  "map id_fw (xs[i := (xs ! i)\<lparr>found := v\<rparr>]) = map id_fw xs"
  by (induction xs arbitrary: i) (auto split: nat.splits)

lemma take_Suc_update:
  "i < length xs \<Longrightarrow> take (Suc i) (xs[i := x]) = take i xs @ [x]"
  by (simp add: take_Suc_conv_app_nth)

lemma probe_inv_found:
  assumes inv: "probe_inv e ds i w" and i: "i < length ds" and ld: "loads e (ds ! i)"
  shows "probe_inv e ds (Suc i) (found_step e i w)"
proof -
  let ?s = "nat (firmwares w + 1)"
  let ?w' = "found_step e i w"
  from inv have len: "length (available_fw w) = length ds" "length (firmware w) = length ds"
    and nm: "map name (available_fw w) = map name ds"
    and idf: "map id_fw (available_fw w) = map id_fw ds"
    and lo: "- 1 \<le> firmwares w" and hi: "firmwares w + 1 \<le> int i"
    and ldd: "loaded w = map (image_for e) (filter (loads e) (take i ds))"
    and fnd: "map found (filter (\<lambda>d. 0 \<le> found d) (take i (available_fw w))) =
       map int [0..<nat (firmwares w + 1)]"
    and old: "\<forall>j<i. if loads e (ds ! j)
            then 0 \<le> found (available_fw w ! j) \<and> found (available_fw w ! j) \<le> firmwares w \<and>
                 firmware w ! nat (found (available_fw w ! j)) = image_for e (ds ! j)
            else found (available_fw w ! j) = - 1"
    by (simp_all add: probe_inv_def)
  have s: "?s < length (firmware w)" "int ?s = firmwares w + 1"
    using lo hi i len by simp_all
  have "name (available_fw w ! i) = name (ds ! i)"
    using nm i len by (metis nth_map)
  then have img: "image_for e (available_fw w ! i) = image_for e (ds ! i)"
    by (simp add: image_for_def)
  have a: "length (available_fw ?w') = length ds" "length (firmware ?w') = length ds"
    using len by (simp_all add: found_step_def)
  have b: "map name (available_fw ?w') = map name ds" "map id_fw (available_fw ?w') = map id_fw ds"
    using nm idf by (simp_all add: found_step_def map_name_found_update)
  have c: "- 1 \<le> firmwares ?w'" "firmwares ?w' + 1 \<le> int (Suc i)"
    using lo hi by (simp_all add: found_step_def)
  have n2: "nat (2 + firmwares w) = Suc ?s" "nat (firmwares w + 1 + 1) = Suc ?s"
    using lo by simp_all
  have d: "loaded ?w' = map (image_for e) (filter (loads e) (take (Suc i) ds))"
    using ldd s i ld img
    by (simp add: loaded_def found_step_def n2 take_Suc_update take_Suc_conv_app_nth [of i ds])
  have f: "map found (filter (\<lambda>d. 0 \<le> found d) (take (Suc i) (available_fw ?w'))) =
       map int [0..<nat (firmwares ?w' + 1)]"
    using fnd s i len lo
    by (simp add: found_step_def n2 take_Suc_update)
  have g: "\<forall>j<Suc i. if loads e (ds ! j)
            then 0 \<le> found (available_fw ?w' ! j) \<and> found (available_fw ?w' ! j) \<le> firmwares ?w' \<and>
                 firmware ?w' ! nat (found (available_fw ?w' ! j)) = image_for e (ds ! j)
            else found (available_fw ?w' ! j) = - 1"
  proof (intro allI impI)
    fix j assume "j < Suc i"
    then consider "j < i" | "j = i" by linarith
    then show "if loads e (ds ! j)
            then 0 \<le> found (available_fw ?w' ! j) \<and> found (available_fw ?w' ! j) \<le> firmwares ?w' \<and>
                 firmware ?w' ! nat (found (available_fw ?w' ! j)) = image_for e (ds ! j)
            else found (available_fw ?w' ! j) = - 1"
    proof cases
      case 1
      with old have o: "if loads e (ds ! j)
            then 0 \<le> found (available_fw w ! j) \<and> found (available_fw w ! j) \<le> firmwares w \<and>
                 firmware w ! nat (found (available_fw w ! j)) = image_for e (ds ! j)
            else found (available_fw w ! j) = - 1" by simp
      have "available_fw ?w' ! j = available_fw w ! j"
        using 1 by (simp add: found_step_def)
      moreover have "0 \<le> found (available_fw w ! j) \<Longrightarrow> found (available_fw w ! j) \<le> firmwares w \<Longrightarrow>
          firmware ?w' ! nat (found (available_fw w ! j)) = firmware w ! nat (found (available_fw w ! j))"
        using lo by (simp add: found_step_def)
      ultimately show ?thesis
        using o by (auto simp: found_step_def)
    next
      case 2
      then show ?thesis
        using ld s i len lo img by (simp add: found_step_def)
    qed
  qed
  show ?thesis
    unfolding probe_inv_def using a b c d f g by blast
qed

lemma probe_inv_absent:
  assumes inv: "probe_inv e ds i w" and i: "i < length ds" and ld: "\<not> loads e (ds ! i)"
  shows "probe_inv e ds (Suc i) (absent_step e i w)"
proof -
  let ?s = "nat (firmwares w + 1)"
  let ?w' = "absent_step e i w"
  from inv have len: "length (available_fw w) = length ds" "length (firmware w) = length ds"
    and nm: "map name (available_fw w) = map name ds"
    and idf: "map id_fw (available_fw w) = map id_fw ds"
    and lo: "- 1 \<le> firmwares w" and hi: "firmwares w + 1 \<le> int i"
    and ldd: "loaded w = map (image_for e) (filter (loads e) (take i ds))"
    and fnd: "map found (filter (\<lambda>d. 0 \<le> found d) (take i (available_fw w))) =
       map int [0..<nat (firmwares w + 1)]"
    and old: "\<forall>j<i. if loads e (ds ! j)
            then 0 \<le> found (available_fw w ! j) \<and> found (available_fw w ! j) \<le> firmwares w \<and>
                 firmware w ! nat (found (available_fw w ! j)) = image_for e (ds ! j)
            else found (available_fw w ! j) = - 1"
    by (simp_all add: probe_inv_def)
  have s: "?s < length (firmware w)" "int ?s = firmwares w + 1"
    using lo hi i len by simp_all
  have a: "length (available_fw ?w') = length ds" "length (firmware ?w') = length ds"
    using len by (simp_all add: absent_step_def)
  have b: "map name (available_fw ?w') = map name ds" "map id_fw (available_fw ?w') = map id_fw ds"
    using nm idf by (simp_all add: absent_step_def map_name_found_update)
  have c: "- 1 \<le> firmwares ?w'" "firmwares ?w' + 1 \<le> int (Suc i)"
    using lo hi by (simp_all add: absent_step_def)
  have d: "loaded ?w' = map (image_for e) (filter (loads e) (take (Suc i) ds))"
    using ldd s i ld
    by (simp add: loaded_def absent_step_def take_Suc_conv_app_nth [of i ds])
  have f: "map found (filter (\<lambda>d. 0 \<le> found d) (take (Suc i) (available_fw ?w'))) =
       map int [0..<nat (firmwares ?w' + 1)]"
    using fnd s i len lo
    by (simp add: absent_step_def take_Suc_update)
  have g: "\<forall>j<Suc i. if loads e (ds ! j)
            then 0 \<le> found (available_fw ?w' ! j) \<and> found (available_fw ?w' ! j) \<le> firmwares ?w' \<and>
                 firmware ?w' ! nat (found (available_fw ?w' ! j)) = image_for e (ds ! j)
            else found (available_fw ?w' ! j) = - 1"
  proof (intro allI impI)
    fix j assume "j < Suc i"
    then consider "j < i" | "j = i" by linarith
    then show "if loads e (ds ! j)
            then 0 \<le> found (available_fw ?w' ! j) \<and> found (available_fw ?w' ! j) \<le> firmwares ?w' \<and>
                 firmware ?w' ! nat (found (available_fw ?w' ! j)) = image_for e (ds ! j)
            else found (available_fw ?w' ! j) = - 1"
    proof cases
      case 1
      with old have o: "if loads e (ds ! j)
            then 0 \<le> found (available_fw w ! j) \<and> found (available_fw w ! j) \<le> firmwares w \<and>
                 firmware w ! nat (found (available_fw w ! j)) = image_for e (ds ! j)
            else found (available_fw w ! j) = - 1" by simp
      have "available_fw ?w' ! j = available_fw w ! j"
        using 1 by (simp add: absent_step_def)
      moreover have "0 \<le> found (available_fw w ! j) \<Longrightarrow> found (available_fw w ! j) \<le> firmwares w \<Longrightarrow>
          firmware ?w' ! nat (found (available_fw w ! j)) = firmware w ! nat (found (available_fw w ! j))"
        using lo by (simp add: absent_step_def)
      ultimately show ?thesis
        using o by (auto simp: absent_step_def)
    next
      case 2
      then show ?thesis
        using ld s i len lo by (simp add: absent_step_def)
    qed
  qed
  show ?thesis
    unfolding probe_inv_def using a b c d f g by blast
qed

lemma probe_inv_fresh:
  assumes "firmwares w = - 1" and "length (firmware w) = length (available_fw w)"
  shows "probe_inv e (available_fw w) 0 w"
  using assms by (simp add: probe_inv_def loaded_def)

lemma probe_body_inv:
  assumes inv: "probe_inv e ds i w" and i: "i < length ds"
  shows "probe_body e i w =
     (if rc_of e (ds ! i) = 0 then Inr (None, found_step e i w)
      else if rc_of e (ds ! i) = - ENOENT then Inr (None, absent_step e i w)
      else Inr (Some (rc_of e (ds ! i)), abort_step e i w))"
proof -
  from inv have len: "length (available_fw w) = length ds" "length (firmware w) = length ds"
    and nm: "map name (available_fw w) = map name ds"
    and lo: "- 1 \<le> firmwares w" and hi: "firmwares w + 1 \<le> int i"
    by (simp_all add: probe_inv_def)
  have "name (available_fw w ! i) = name (ds ! i)"
    using nm i len by (metis nth_map)
  moreover have "0 \<le> firmwares w + 1" "firmwares w + 1 < int (length (firmware w))"
    using lo hi i len by simp_all
  ultimately show ?thesis
    by (simp add: probe_body_eq rc_of_def Let_def)
qed

lemma step_logs:
  "fw_log (found_step e i w) = fw_log w @ [Request_firmware (name (available_fw w ! i))]"
  "fw_log (absent_step e i w) = fw_log w @ [Request_firmware (name (available_fw w ! i))]"
  "fw_log (abort_step e i w) = fw_log w @ [Request_firmware (name (available_fw w ! i))]"
  "usb_log (found_step e i w) = usb_log w"
  "usb_log (absent_step e i w) = usb_log w"
  "usb_log (abort_step e i w) = usb_log w"
  "firmware_version (found_step e i w) = firmware_version w"
  "firmware_version (absent_step e i w) = firmware_version w"
  "firmware_version (abort_step e i w) = firmware_version w"
  by (simp_all add: found_step_def absent_step_def abort_step_def)

lemma probe_inv_name:
  "probe_inv e ds i w \<Longrightarrow> i < length ds \<Longrightarrow> name (available_fw w ! i) = name (ds ! i)"
  unfolding probe_inv_def by (metis nth_map)

lemma probe_body_next:
  assumes inv: "probe_inv e ds i w" and i: "i < length ds"
    and b: "probe_body e i w = Inr (None, w1)"
  shows "probe_inv e ds (Suc i) w1 \<and>
         fw_log w1 = fw_log w @ [Request_firmware (name (ds ! i))] \<and>
         usb_log w1 = usb_log w \<and> firmware_version w1 = firmware_version w \<and>
         (rc_of e (ds ! i) = 0 \<or> rc_of e (ds ! i) = - ENOENT)"
proof (cases "rc_of e (ds ! i) = 0")
  case True
  with b have "w1 = found_step e i w"
    by (simp add: probe_body_inv [OF inv i])
  moreover have "loads e (ds ! i)"
    using True by (simp add: loads_def rc_of_def)
  ultimately show ?thesis
    using True probe_inv_found [OF inv i] probe_inv_name [OF inv i] by (simp add: step_logs)
next
  case False
  with b have eq: "w1 = absent_step e i w" and rc: "rc_of e (ds ! i) = - ENOENT"
    by (simp_all add: probe_body_inv [OF inv i] split: if_splits)
  moreover have "\<not> loads e (ds ! i)"
    using False by (simp add: loads_def rc_of_def)
  ultimately show ?thesis
    using probe_inv_absent [OF inv i] probe_inv_name [OF inv i] by (simp add: step_logs)
qed

lemma probe_loop_inv:
  assumes "probe_inv e ds i w" and "i \<le> length ds"
    and "probe_loop e (length ds) i w = Inr (None, w')"
  shows "probe_inv e ds (length ds) w' \<and>
         fw_log w' = fw_log w @ map (Request_firmware \<circ> name) (drop i ds) \<and>
         usb_log w' = usb_log w \<and> firmware_version w' = firmware_version w \<and>
         (\<forall>j. i \<le> j \<and> j < length ds \<longrightarrow> rc_of e (ds ! j) = 0 \<or> rc_of e (ds ! j) = - ENOENT)"
  using assms
proof (induction "length ds - i" arbitrary: i w)
  case 0
  then have "i = length ds" by simp
  with "0.prems" show ?case
    by (simp add: probe_loop.simps [of e "length ds" "length ds" w])
next
  case (Suc m)
  then have i: "i < length ds" by simp
  from Suc.prems(3) i obtain w1 where b: "probe_body e i w = Inr (None, w1)"
    and l: "probe_loop e (length ds) (Suc i) w1 = Inr (None, w')"
    by (simp add: probe_loop.simps [of e "length ds" i w] split: sum.splits option.splits prod.splits)
  note n = probe_body_next [OF Suc.prems(1) i b]
  have "m = length ds - Suc i" using Suc.hyps(2) by simp
  from Suc.hyps(1) [OF this _ _ l] n i
  have r: "probe_inv e ds (length ds) w' \<and>
         fw_log w' = fw_log w1 @ map (Request_firmware \<circ> name) (drop (Suc i) ds) \<and>
         usb_log w' = usb_log w1 \<and> firmware_version w' = firmware_version w1 \<and>
         (\<forall>j. Suc i \<le> j \<and> j < length ds \<longrightarrow> rc_of e (ds ! j) = 0 \<or> rc_of e (ds ! j) = - ENOENT)"
    by simp
  have "\<forall>j. i \<le> j \<and> j < length ds \<longrightarrow> rc_of e (ds ! j) = 0 \<or> rc_of e (ds ! j) = - ENOENT"
  proof (intro allI impI)
    fix j assume "i \<le> j \<and> j < length ds"
    then consider "j = i" | "Suc i \<le> j \<and> j < length ds" by linarith
    then show "rc_of e (ds ! j) = 0 \<or> rc_of e (ds ! j) = - ENOENT"
      using n r by cases simp_all
  qed
  moreover have "drop i ds = ds ! i # drop (Suc i) ds"
    using i by (simp add: Cons_nth_drop_Suc)
  ultimately show ?case
    using r n by simp
qed

lemma probe_loop_completes:
  assumes "probe_inv e ds i w" and "i \<le> length ds"
    and "\<forall>j. i \<le> j \<and> j < length ds \<longrightarrow> rc_of e (ds ! j) = 0 \<or> rc_of e (ds ! j) = - ENOENT"
  shows "\<exists>w'. probe_loop e (length ds) i w = Inr (None, w')"
  using assms
proof (induction "length ds - i" arbitrary: i w)
  case 0
  then have "\<not> i < length ds" by simp
  then show ?case
    by (subst probe_loop.simps) simp
next
  case (Suc m)
  then have i: "i < length ds" by simp
  from Suc.prems(3) i have ok: "rc_of e (ds ! i) = 0 \<or> rc_of e (ds ! i) = - ENOENT"
    by simp
  then obtain w1 where b: "probe_body e i w = Inr (None, w1)"
    by (auto simp: probe_body_inv [OF Suc.prems(1) i] ENOENT_def)
  note n = probe_body_next [OF Suc.prems(1) i b]
  have "m = length ds - Suc i" using Suc.hyps(2) by simp
  from Suc.hyps(1) [OF this, of w1] n i Suc.prems(3)
  obtain w' where "probe_loop e (length ds) (Suc i) w1 = Inr (None, w')"
    by auto
  then show ?case
    using i b by (simp add: probe_loop.simps [of e "length ds" i w])
qed

lemma probe_loop_aborts:
  assumes "probe_inv e ds i w" and "i \<le> k" and "k < length ds"
    and "\<forall>j. i \<le> j \<and> j < k \<longrightarrow> rc_of e (ds ! j) = 0 \<or> rc_of e (ds ! j) = - ENOENT"
    and "rc_of e (ds ! k) \<noteq> 0" and "rc_of e (ds ! k) \<noteq> - ENOENT"
  shows "\<exists>w'. probe_loop e (length ds) i w = Inr (Some (rc_of e (ds ! k)), w') \<and>
           fw_log w' = fw_log w @ map (Request_firmware \<circ> name) (take (Suc k - i) (drop i ds)) \<and>
           usb_log w' = usb_log w \<and> firmware_version w' = firmware_version w \<and>
           drop (Suc k) (available_fw w') = drop (Suc k) (available_fw w) \<and>
           (\<forall>j<k. \<not> loads e (ds ! j) \<longrightarrow> found (available_fw w' ! j) = - 1)"
  using assms
proof (induction "k - i" arbitrary: i w)
  case 0
  then have ik: "i = k" by simp
  have "drop k ds = ds ! k # drop (Suc k) ds"
    using "0.prems"(3) by (simp add: Cons_nth_drop_Suc)
  moreover have "\<forall>j<k. \<not> loads e (ds ! j) \<longrightarrow> found (available_fw w ! j) = - 1"
    using "0.prems"(1) unfolding ik probe_inv_def by metis
  ultimately show ?case
    using "0.prems" probe_inv_name [OF "0.prems"(1)] unfolding ik
    by (simp add: probe_loop.simps [of e "length ds" k w] probe_body_inv [of e ds k w] step_logs
          abort_step_def)
next
  case (Suc m)
  then have ik: "i < k" and i: "i < length ds" by simp_all
  from Suc.prems(4) ik have ok: "rc_of e (ds ! i) = 0 \<or> rc_of e (ds ! i) = - ENOENT"
    by simp
  then obtain w1 where b: "probe_body e i w = Inr (None, w1)"
    by (auto simp: probe_body_inv [OF Suc.prems(1) i] ENOENT_def)
  note n = probe_body_next [OF Suc.prems(1) i b]
  have w1: "drop (Suc k) (available_fw w1) = drop (Suc k) (available_fw w)"
    using b ok ik
    by (auto simp: probe_body_inv [OF Suc.prems(1) i] found_step_def absent_step_def ENOENT_def)
  have "m = k - Suc i" using Suc.hyps(2) by simp
  from Suc.hyps(1) [OF this, of w1] n ik Suc.prems(3,4,5,6)
  obtain w' where r: "probe_loop e (length ds) (Suc i) w1 = Inr (Some (rc_of e (ds ! k)), w')"
     "fw_log w' = fw_log w1 @ map (Request_firmware \<circ> name) (take (Suc k - Suc i) (drop (Suc i) ds))"
     "usb_log w' = usb_log w1" "firmware_version w' = firmware_version w1"
     "drop (Suc k) (available_fw w') = drop (Suc k) (available_fw w1)"
     "\<forall>j<k. \<not> loads e (ds ! j) \<longrightarrow> found (available_fw w' ! j) = - 1"
    by auto
  have "drop i ds = ds ! i # drop (Suc i) ds"
    using i by (simp add: Cons_nth_drop_Suc)
  moreover have "Suc k - i = Suc (k - i)"
    using ik by simp
  ultimately show ?case
    using i b r n w1 by (simp add: probe_loop.simps [of e "length ds" i w])
qed

subsection \<open>The catalog after the loop\<close>

lemma probe_inv_catalog:
  assumes "probe_inv e ds (length ds) w"
  shows "catalog_ok w"
proof -
  from assms have len: "length (available_fw w) = length ds" "length (firmware w) = length ds"
    and lo: "- 1 \<le> firmwares w"
    and fnd: "map found (filter (\<lambda>d. 0 \<le> found d) (take (length ds) (available_fw w))) =
       map int [0..<nat (firmwares w + 1)]"
    and old: "\<forall>j<length ds. if loads e (ds ! j)
            then 0 \<le> found (available_fw w ! j) \<and> found (available_fw w ! j) \<le> firmwares w \<and>
                 firmware w ! nat (found (available_fw w ! j)) = image_for e (ds ! j)
            else found (available_fw w ! j) = - 1"
    by (auto simp: probe_inv_def)
  have "\<forall>d\<in>set (available_fw w). - 1 \<le> found d"
  proof
    fix d assume "d \<in> set (available_fw w)"
    then obtain j where j: "j < length ds" "d = available_fw w ! j"
      using len by (auto simp: in_set_conv_nth)
    with old show "- 1 \<le> found d"
      by (cases "loads e (ds ! j)") auto
  qed
  with len lo fnd show ?thesis
    by (simp add: catalog_ok_def present_def)
qed

lemma catalog_ok_range:
  assumes "catalog_ok w" and "d \<in> set (available_fw w)"
  shows "found d < int (length (firmware w))"
proof (cases "0 \<le> found d")
  case False
  then show ?thesis by simp
next
  case True
  let ?k = "nat (firmwares w + 1)"
  from assms(1) have len: "length (firmware w) = length (available_fw w)"
    and fnd: "map found (present w) = map int [0..<?k]"
    by (simp_all add: catalog_ok_def)
  from fnd have "length (present w) = ?k"
    by (metis length_map length_upt minus_nat.diff_0)
  moreover have "length (present w) \<le> length (available_fw w)"
    by (simp add: present_def)
  ultimately have k: "?k \<le> length (firmware w)"
    using len by simp
  from True assms(2) have "d \<in> set (present w)"
    by (simp add: present_def)
  then have "found d \<in> set (map found (present w))"
    by simp
  then have "found d \<in> int ` {0..<?k}"
    unfolding fnd by simp
  then show ?thesis
    using k by auto
qed

lemma choose_loop_filter:
  assumes "\<forall>d\<in>set (available_fw w). found d < int (length (firmware w))"
  shows "choose_loop e udev i w =
     (case filter (\<lambda>d. firmware_version w = word_of_int (id_fw d) \<and> 0 \<le> found d)
             (drop i (available_fw w)) of
        [] \<Rightarrow> Inr (0, w)
      | d # ds \<Rightarrow> smi2021_load_firmware e udev (firmware w ! nat (found d)) w)"
proof (induction "length (available_fw w) - i" arbitrary: i)
  case 0
  then show ?case
    by (subst choose_loop.simps) simp
next
  case (Suc m)
  then have i: "i < length (available_fw w)" by simp
  then have dr: "drop i (available_fw w) = available_fw w ! i # drop (Suc i) (available_fw w)"
    by (simp add: Cons_nth_drop_Suc)
  have "m = length (available_fw w) - Suc i" using Suc.hyps(2) by simp
  note IH = Suc.hyps(1) [OF this]
  have rng: "found (available_fw w ! i) < int (length (firmware w))"
    using assms i by simp
  show ?case
    using i rng by (subst choose_loop.simps) (simp add: dr IH Let_def)
qed

lemma run_only_3e:
  "probe_loop device_ready 3 0 (module_init v) = Inr (None, catalog_3e v)"
  by (simp add: probe_loop.simps probe_body_def request_firmware_def device_ready_def
        only_3e_def module_init_def catalog_3e_def ENOENT_def Let_def)

subsection \<open>Theorems about the probe\<close>

text \<open>
  The probe loop is entered with the counter at \<open>-1\<close>, its value when the module
  is loaded and after a disconnect, and runs to its end.  Then the loaded-image table
  holds, slot by slot, the images of the descriptors for which the loader returned 0, in
  the order of the descriptor table: slot 0 the first one found, slot 1 the second, and so
  on.  And for every such descriptor, the slot recorded in its \<open>found\<close> field lies in
  the table and holds the image the loader gave for it.  The state is a catalog
  (\<open>catalog_ok\<close>): the slots recorded are \<open>0, 1, \<dots>\<close> up to the counter, in the
  order of the descriptors, and every other descriptor is absent.
\<close>

lemma probe_registration_order:
  assumes "firmwares w = - 1" and "length (firmware w) = length (available_fw w)"
    and "probe_loop e (length (available_fw w)) 0 w = Inr (None, w')"
  shows "loaded w' = map (image_for e) (filter (loads e) (available_fw w)) \<and>
         (\<forall>i<length (available_fw w). loads e (available_fw w ! i) \<longrightarrow>
            0 \<le> found (available_fw w' ! i) \<and>
            nat (found (available_fw w' ! i)) < length (loaded w') \<and>
            loaded w' ! nat (found (available_fw w' ! i)) = image_for e (available_fw w ! i)) \<and>
         catalog_ok w'"
proof -
  let ?ds = "available_fw w"
  from probe_loop_inv [OF probe_inv_fresh [OF assms(1,2)] _ assms(3)]
  have inv: "probe_inv e ?ds (length ?ds) w'" by simp
  then have len: "length (firmware w') = length ?ds"
    and lo: "- 1 \<le> firmwares w'" and hi: "firmwares w' + 1 \<le> int (length ?ds)"
    and ldd: "loaded w' = map (image_for e) (filter (loads e) ?ds)"
    and old: "\<forall>j<length ?ds. if loads e (?ds ! j)
            then 0 \<le> found (available_fw w' ! j) \<and> found (available_fw w' ! j) \<le> firmwares w' \<and>
                 firmware w' ! nat (found (available_fw w' ! j)) = image_for e (?ds ! j)
            else found (available_fw w' ! j) = - 1"
    by (simp_all add: probe_inv_def)
  have ll: "length (loaded w') = nat (firmwares w' + 1)"
    using len hi lo by (simp add: loaded_def)
  have "\<forall>i<length ?ds. loads e (?ds ! i) \<longrightarrow>
            0 \<le> found (available_fw w' ! i) \<and>
            nat (found (available_fw w' ! i)) < length (loaded w') \<and>
            loaded w' ! nat (found (available_fw w' ! i)) = image_for e (?ds ! i)"
  proof (intro allI impI)
    fix i assume i: "i < length ?ds" and l: "loads e (?ds ! i)"
    with old have f: "0 \<le> found (available_fw w' ! i)" "found (available_fw w' ! i) \<le> firmwares w'"
      "firmware w' ! nat (found (available_fw w' ! i)) = image_for e (?ds ! i)"
      by (auto split: if_splits)
    from f(1,2) have "nat (found (available_fw w' ! i)) < nat (firmwares w' + 1)"
      by simp
    with f(1,3) ll show "0 \<le> found (available_fw w' ! i) \<and>
            nat (found (available_fw w' ! i)) < length (loaded w') \<and>
            loaded w' ! nat (found (available_fw w' ! i)) = image_for e (?ds ! i)"
      by (simp add: loaded_def)
  qed
  with ldd probe_inv_catalog [OF inv] show ?thesis by blast
qed

lemma probe_registration_order_run:
  "probe_loop device_ready 3 0 (module_init 0) = Inr (None, catalog_3e 0) \<and>
   loaded (catalog_3e 0) = [Some image_three] \<and>
   found (available_fw (catalog_3e 0) ! 1) = 0 \<and>
   loaded (catalog_3e 0) ! nat (found (available_fw (catalog_3e 0) ! 1)) = Some image_three"
proof -
  have a: "firmwares (module_init 0) = - 1"
    by (simp add: module_init_def)
  have b: "length (firmware (module_init 0)) = length (available_fw (module_init 0))"
    by (simp add: module_init_def)
  have l: "length (available_fw (module_init 0)) = 3"
    by (simp add: module_init_def)
  have c: "probe_loop device_ready (length (available_fw (module_init 0))) 0 (module_init 0) =
             Inr (None, catalog_3e 0)"
    unfolding l by (rule run_only_3e)
  from probe_registration_order [OF a b c] run_only_3e [of 0] show ?thesis
    by (simp add: loaded_def catalog_3e_def image_for_def loads_def device_ready_def
          only_3e_def module_init_def ENOENT_def)
qed

text \<open>
  C7.  The probe is entered with the counter at \<open>-1\<close>, and the loader answers each of
  the first \<open>k\<close> descriptors with 0 or with \<open>-ENOENT\<close>.  If these are all the
  descriptors, the loop runs to its end: every descriptor was asked for, in order, and
  those answered with \<open>-ENOENT\<close> are marked absent (\<open>found = -1\<close>).  If the
  descriptor \<open>k\<close> is answered with any other value, the probe returns that value at
  once: the requests made are those for the descriptors 0 to \<open>k\<close>, the descriptors
  after \<open>k\<close> are untouched, no control transfer is made, and the descriptors before
  \<open>k\<close> that were not found are marked absent, the loop having gone on after each of them.
\<close>

theorem probe_not_found_or_error:
  assumes "firmwares w = - 1" and "length (firmware w) = length (available_fw w)"
    and "k \<le> length (available_fw w)"
    and "\<forall>j<k. rc_of e (available_fw w ! j) = 0 \<or> rc_of e (available_fw w ! j) = - ENOENT"
  shows "(k = length (available_fw w) \<longrightarrow>
            (\<exists>w'. probe_loop e (length (available_fw w)) 0 w = Inr (None, w') \<and>
                  fw_log w' = fw_log w @ map (Request_firmware \<circ> name) (available_fw w) \<and>
                  (\<forall>j<k. rc_of e (available_fw w ! j) = - ENOENT \<longrightarrow>
                          found (available_fw w' ! j) = - 1))) \<and>
         (k < length (available_fw w) \<and> rc_of e (available_fw w ! k) \<noteq> 0 \<and>
          rc_of e (available_fw w ! k) \<noteq> - ENOENT \<longrightarrow>
            (\<exists>w'. smi2021_bootloader_probe e udev w = Inr (rc_of e (available_fw w ! k), w') \<and>
                  fw_log w' = fw_log w @ map (Request_firmware \<circ> name) (take (Suc k) (available_fw w)) \<and>
                  usb_log w' = usb_log w \<and>
                  drop (Suc k) (available_fw w') = drop (Suc k) (available_fw w) \<and>
                  (\<forall>j<k. rc_of e (available_fw w ! j) = - ENOENT \<longrightarrow>
                          found (available_fw w' ! j) = - 1)))"
proof (intro conjI impI)
  let ?ds = "available_fw w"
  note fresh = probe_inv_fresh [OF assms(1,2), of e]
  assume k: "k = length ?ds"
  with assms(4) have "\<forall>j. 0 \<le> j \<and> j < length ?ds \<longrightarrow> rc_of e (?ds ! j) = 0 \<or> rc_of e (?ds ! j) = - ENOENT"
    by simp
  from probe_loop_completes [OF fresh _ this]
  obtain w' where run: "probe_loop e (length ?ds) 0 w = Inr (None, w')" by auto
  from probe_loop_inv [OF fresh _ run]
  have inv: "probe_inv e ?ds (length ?ds) w'"
    and lg: "fw_log w' = fw_log w @ map (Request_firmware \<circ> name) ?ds" by simp_all
  have "\<forall>j<k. rc_of e (?ds ! j) = - ENOENT \<longrightarrow> found (available_fw w' ! j) = - 1"
  proof (intro allI impI)
    fix j assume "j < k" and "rc_of e (?ds ! j) = - ENOENT"
    then have "j < length ?ds" and "\<not> loads e (?ds ! j)"
      using k by (simp_all add: loads_def rc_of_def ENOENT_def)
    with inv show "found (available_fw w' ! j) = - 1"
      unfolding probe_inv_def by metis
  qed
  with run lg show "\<exists>w'. probe_loop e (length ?ds) 0 w = Inr (None, w') \<and>
                  fw_log w' = fw_log w @ map (Request_firmware \<circ> name) ?ds \<and>
                  (\<forall>j<k. rc_of e (?ds ! j) = - ENOENT \<longrightarrow> found (available_fw w' ! j) = - 1)"
    by blast
next
  let ?ds = "available_fw w"
  note fresh = probe_inv_fresh [OF assms(1,2), of e]
  assume a: "k < length ?ds \<and> rc_of e (?ds ! k) \<noteq> 0 \<and> rc_of e (?ds ! k) \<noteq> - ENOENT"
  from assms(4) have "\<forall>j. 0 \<le> j \<and> j < k \<longrightarrow> rc_of e (?ds ! j) = 0 \<or> rc_of e (?ds ! j) = - ENOENT"
    by simp
  from probe_loop_aborts [OF fresh _ _ this] a
  obtain w' where run: "probe_loop e (length ?ds) 0 w = Inr (Some (rc_of e (?ds ! k)), w')"
    and r: "fw_log w' = fw_log w @ map (Request_firmware \<circ> name) (take (Suc k) ?ds)"
      "usb_log w' = usb_log w" "drop (Suc k) (available_fw w') = drop (Suc k) ?ds"
      "\<forall>j<k. \<not> loads e (?ds ! j) \<longrightarrow> found (available_fw w' ! j) = - 1"
    by auto
  have "\<forall>j<k. rc_of e (?ds ! j) = - ENOENT \<longrightarrow> found (available_fw w' ! j) = - 1"
    using r(4) by (simp add: loads_def rc_of_def ENOENT_def)
  moreover have "smi2021_bootloader_probe e udev w = Inr (rc_of e (?ds ! k), w')"
    using run by (simp add: smi2021_bootloader_probe_def)
  ultimately show "\<exists>w'. smi2021_bootloader_probe e udev w = Inr (rc_of e (?ds ! k), w') \<and>
                  fw_log w' = fw_log w @ map (Request_firmware \<circ> name) (take (Suc k) ?ds) \<and>
                  usb_log w' = usb_log w \<and>
                  drop (Suc k) (available_fw w') = drop (Suc k) ?ds \<and>
                  (\<forall>j<k. rc_of e (?ds ! j) = - ENOENT \<longrightarrow> found (available_fw w' ! j) = - 1)"
    using r by blast
qed

theorem probe_not_found_or_error_witness:
  "(\<exists>w'. probe_loop device_ready 3 0 (module_init 0) = Inr (None, w') \<and>
         fw_log w' = [Request_firmware ''smi2021_3c.bin'', Request_firmware ''smi2021_3e.bin'',
                      Request_firmware ''smi2021_3f.bin''] \<and>
         found (available_fw w' ! 0) = - 1 \<and> found (available_fw w' ! 2) = - 1) \<and>
   (\<exists>w'. smi2021_bootloader_probe device_broken Usb_device (module_init 0) = Inr (- 5, w') \<and>
         fw_log w' = [Request_firmware ''smi2021_3c.bin'', Request_firmware ''smi2021_3e.bin''] \<and>
         usb_log w' = [] \<and> found (available_fw w' ! 0) = - 1 \<and>
         drop 2 (available_fw w') = [\<lparr>id_fw = 0x3f, name = ''smi2021_3f.bin'', found = 0\<rparr>])"
proof -
  let ?w = "module_init 0"
  have a: "firmwares ?w = - 1"
    by (simp add: module_init_def)
  have b: "length (firmware ?w) = length (available_fw ?w)"
    by (simp add: module_init_def)
  have l: "length (available_fw ?w) = 3"
    by (simp add: module_init_def)
  have rcs: "rc_of device_ready (available_fw ?w ! 0) = - ENOENT"
    "rc_of device_ready (available_fw ?w ! 1) = 0"
    "rc_of device_ready (available_fw ?w ! 2) = - ENOENT"
    "rc_of device_broken (available_fw ?w ! 0) = - ENOENT"
    "rc_of device_broken (available_fw ?w ! 1) = - 5"
    by (simp_all add: rc_of_def device_ready_def device_broken_def only_3e_def loader_broken_def
          module_init_def)
  have c: "3 \<le> length (available_fw ?w)"
    by (simp add: l)
  have d: "\<forall>j<3. rc_of device_ready (available_fw ?w ! j) = 0 \<or>
                  rc_of device_ready (available_fw ?w ! j) = - ENOENT"
    by (simp add: rc_of_def device_ready_def only_3e_def module_init_def less_Suc_eq
          numeral_3_eq_3)
  have e: "3 = length (available_fw ?w)"
    by (simp add: l)
  from probe_not_found_or_error [OF a b c d, of Usb_device, THEN conjunct1, THEN mp, OF e]
  obtain w1 where 1: "probe_loop device_ready (length (available_fw ?w)) 0 ?w = Inr (None, w1)"
    "fw_log w1 = fw_log ?w @ map (Request_firmware \<circ> name) (available_fw ?w)"
    "\<forall>j<3. rc_of device_ready (available_fw ?w ! j) = - ENOENT \<longrightarrow>
            found (available_fw w1 ! j) = - 1"
    by blast
  from 1(3) rcs(1,3) have f1: "found (available_fw w1 ! 0) = - 1" "found (available_fw w1 ! 2) = - 1"
    by simp_all
  have g1: "fw_log w1 = [Request_firmware ''smi2021_3c.bin'', Request_firmware ''smi2021_3e.bin'',
                      Request_firmware ''smi2021_3f.bin'']"
    using 1(2) by (simp add: module_init_def)
  have first: "\<exists>w'. probe_loop device_ready 3 0 ?w = Inr (None, w') \<and>
         fw_log w' = [Request_firmware ''smi2021_3c.bin'', Request_firmware ''smi2021_3e.bin'',
                      Request_firmware ''smi2021_3f.bin''] \<and>
         found (available_fw w' ! 0) = - 1 \<and> found (available_fw w' ! 2) = - 1"
    using 1(1) f1 g1 unfolding l by blast
  have c': "1 \<le> length (available_fw ?w)"
    by (simp add: l)
  have d': "\<forall>j<1. rc_of device_broken (available_fw ?w ! j) = 0 \<or>
                  rc_of device_broken (available_fw ?w ! j) = - ENOENT"
    using rcs(4) by simp
  have e': "1 < length (available_fw ?w) \<and> rc_of device_broken (available_fw ?w ! 1) \<noteq> 0 \<and>
            rc_of device_broken (available_fw ?w ! 1) \<noteq> - ENOENT"
    using rcs(5) by (simp add: l ENOENT_def)
  from probe_not_found_or_error [OF a b c' d', of Usb_device, THEN conjunct2, THEN mp, OF e']
  obtain w2 where 2:
    "smi2021_bootloader_probe device_broken Usb_device ?w =
       Inr (rc_of device_broken (available_fw ?w ! 1), w2)"
    "fw_log w2 = fw_log ?w @ map (Request_firmware \<circ> name) (take (Suc 1) (available_fw ?w))"
    "usb_log w2 = usb_log ?w"
    "drop (Suc 1) (available_fw w2) = drop (Suc 1) (available_fw ?w)"
    "\<forall>j<1. rc_of device_broken (available_fw ?w ! j) = - ENOENT \<longrightarrow>
            found (available_fw w2 ! j) = - 1"
    by blast
  from 2(5) rcs(4) have f2: "found (available_fw w2 ! 0) = - 1"
    by simp
  have g2: "fw_log w2 = [Request_firmware ''smi2021_3c.bin'', Request_firmware ''smi2021_3e.bin'']"
    using 2(2) by (simp add: module_init_def)
  have h2: "usb_log w2 = []"
    using 2(3) by (simp add: module_init_def)
  have k2: "drop 2 (available_fw w2) = [\<lparr>id_fw = 0x3f, name = ''smi2021_3f.bin'', found = 0\<rparr>]"
    using 2(4) by (simp add: module_init_def numeral_2_eq_2)
  have "smi2021_bootloader_probe device_broken Usb_device ?w = Inr (- 5, w2)"
    using 2(1) unfolding rcs(5) .
  with f2 g2 h2 k2 first show ?thesis
    by blast
qed

text \<open>
  In a state as the probe loop leaves it when it was entered with the counter at \<open>-1\<close>
  (\<open>catalog_ok\<close>), with the table's
  identifiers all different from 0, the value of the module parameter when no preference
  is given: what the probe does after the loop is what the decision table \<open>select\<close>
  says.  No descriptor present: it returns \<open>-ENODEV\<close> and changes nothing.  Exactly one
  present: it uploads that descriptor's image, whatever the preference is.  Two or more
  present and the preference equal to the identifier of a present descriptor: it uploads
  that descriptor's image.  Two or more present and no such preference: it returns 0 and
  changes nothing, so no transfer is made.  The return value of an upload is passed on
  when it is negative and a single firmware was present, and is 0 otherwise.
\<close>

lemma probe_select_decision:
  assumes "catalog_ok w"
    and "\<forall>d\<in>set (available_fw w). (word_of_int (id_fw d) :: 32 word) \<noteq> 0"
    and "firmware_version w = (case preferred_id of None \<Rightarrow> 0 | Some p \<Rightarrow> p)"
  shows "probe_select e udev w =
     (case select w preferred_id of
        NoFirmwareAvailable \<Rightarrow> Inr (- ENODEV, w)
      | AmbiguousRequiresOperatorChoice \<Rightarrow> Inr (0, w)
      | UploadOne img \<Rightarrow>
         (case smi2021_load_firmware e (Some udev) img w of
            Inl f \<Rightarrow> Inl f
          | Inr (rc, w') \<Rightarrow> Inr (if rc < 0 \<and> length (present w) = 1 then rc else 0, w')))"
proof -
  let ?k = "nat (firmwares w + 1)"
  from assms(1) have len: "length (firmware w) = length (available_fw w)"
    and lo: "- 1 \<le> firmwares w"
    and fnd: "map found (present w) = map int [0..<?k]"
    by (simp_all add: catalog_ok_def)
  from fnd have k: "length (present w) = ?k"
    by (metis length_map length_upt minus_nat.diff_0)
  have rng: "\<forall>d\<in>set (available_fw w). found d < int (length (firmware w))"
    using catalog_ok_range [OF assms(1)] by blast
  have flt: "filter (\<lambda>d. firmware_version w = word_of_int (id_fw d) \<and> 0 \<le> found d) (available_fw w)
             = filter (\<lambda>d. word_of_int (id_fw d) = firmware_version w) (present w)"
    by (auto simp: present_def intro: filter_cong)
  have choose: "smi2021_choose_firmware e (Some udev) w =
     (case filter (\<lambda>d. word_of_int (id_fw d) = firmware_version w) (present w) of
        [] \<Rightarrow> Inr (0, w)
      | d # ds \<Rightarrow> smi2021_load_firmware e (Some udev) (firmware w ! nat (found d)) w)"
    using choose_loop_filter [OF rng, of e "Some udev" 0]
    by (simp add: smi2021_choose_firmware_def flt)
  show ?thesis
  proof (cases "present w")
    case Nil
    with k lo have "firmwares w < 0" by simp
    with Nil show ?thesis
      by (simp add: probe_select_def select_def)
  next
    case (Cons d ds)
    note outer = Cons
    show ?thesis
    proof (cases ds)
      case Nil
      with outer k have k1: "?k = 1" by simp
      then have f0: "firmwares w = 0" by simp
      from fnd outer Nil k1 have "found d = 0" by simp
      moreover have "length (firmware w) \<noteq> 0"
        using len outer by (auto simp: present_def)
      ultimately show ?thesis
        using outer Nil f0
        by (simp add: probe_select_def select_def image_of_def split: sum.splits prod.splits)
    next
      case (Cons d' ds')
      with outer k have "2 \<le> ?k" by simp
      then have f: "\<not> firmwares w < 0" "firmwares w \<noteq> 0" by simp_all
      have none: "preferred_id = None \<Longrightarrow>
          filter (\<lambda>d. word_of_int (id_fw d) = firmware_version w) (present w) = []"
        using assms(2,3) by (auto simp: present_def filter_empty_conv)
      show ?thesis
        using f outer Cons assms(3) none
        by (cases preferred_id)
           (auto simp add: probe_select_def select_def choose image_of_def
              split: list.splits sum.splits prod.splits)
    qed
  qed
qed

lemma probe_select_decision_runs:
  "probe_select device_ready Usb_device catalog_none = Inr (- 19, catalog_none) \<and>
   probe_select device_ready Usb_device (catalog_3e 0x3c) =
     (case smi2021_load_firmware device_ready (Some Usb_device) (Some image_three) (catalog_3e 0x3c) of
        Inl f \<Rightarrow> Inl f
      | Inr (rc, w') \<Rightarrow> Inr (if rc < 0 then rc else 0, w')) \<and>
   probe_select device_ready Usb_device catalog_two =
     (case smi2021_load_firmware device_ready (Some Usb_device) (Some image_three) catalog_two of
        Inl f \<Rightarrow> Inl f
      | Inr (rc, w') \<Rightarrow> Inr (0, w')) \<and>
   probe_select device_ready Usb_device (catalog_two\<lparr>firmware_version := 0\<rparr>) =
     Inr (0, catalog_two\<lparr>firmware_version := 0\<rparr>)"
proof -
  have ok: "catalog_ok catalog_none" "catalog_ok (catalog_3e 0x3c)" "catalog_ok catalog_two"
    "catalog_ok (catalog_two\<lparr>firmware_version := 0\<rparr>)"
    by (simp_all add: catalog_ok_def catalog_none_def catalog_3e_def catalog_two_def present_def
          upt_rec numeral_2_eq_2)
  have ids: "\<forall>d\<in>set (available_fw catalog_none). (word_of_int (id_fw d) :: 32 word) \<noteq> 0"
    "\<forall>d\<in>set (available_fw (catalog_3e 0x3c)). (word_of_int (id_fw d) :: 32 word) \<noteq> 0"
    "\<forall>d\<in>set (available_fw catalog_two). (word_of_int (id_fw d) :: 32 word) \<noteq> 0"
    "\<forall>d\<in>set (available_fw (catalog_two\<lparr>firmware_version := 0\<rparr>)).
        (word_of_int (id_fw d) :: 32 word) \<noteq> 0"
    by (simp_all add: catalog_none_def catalog_3e_def catalog_two_def)
  have pref: "firmware_version catalog_none = (case None of None \<Rightarrow> 0 | Some p \<Rightarrow> p)"
    "firmware_version (catalog_3e 0x3c) = (case Some 0x3c of None \<Rightarrow> 0 | Some p \<Rightarrow> p)"
    "firmware_version catalog_two = (case Some 0x3e of None \<Rightarrow> 0 | Some p \<Rightarrow> p)"
    "firmware_version (catalog_two\<lparr>firmware_version := 0\<rparr>) =
       (case None of None \<Rightarrow> 0 | Some p \<Rightarrow> p)"
    by (simp_all add: catalog_none_def catalog_3e_def catalog_two_def)
  have sel: "select catalog_none None = NoFirmwareAvailable"
    "select (catalog_3e 0x3c) (Some 0x3c) = UploadOne (Some image_three)"
    "select catalog_two (Some 0x3e) = UploadOne (Some image_three)"
    "select (catalog_two\<lparr>firmware_version := 0\<rparr>) None = AmbiguousRequiresOperatorChoice"
    by (simp_all add: select_def present_def catalog_none_def catalog_3e_def catalog_two_def
          image_of_def)
  have n: "length (present (catalog_3e 0x3c)) = 1" "length (present catalog_two) = 2"
    by (simp_all add: present_def catalog_3e_def catalog_two_def)
  from probe_select_decision [OF ok(1) ids(1) pref(1), of device_ready Usb_device]
  have 1: "probe_select device_ready Usb_device catalog_none = Inr (- 19, catalog_none)"
    by (simp add: sel ENODEV_def)
  from probe_select_decision [OF ok(2) ids(2) pref(2), of device_ready Usb_device]
  have 2: "probe_select device_ready Usb_device (catalog_3e 0x3c) =
     (case smi2021_load_firmware device_ready (Some Usb_device) (Some image_three) (catalog_3e 0x3c) of
        Inl f \<Rightarrow> Inl f
      | Inr (rc, w') \<Rightarrow> Inr (if rc < 0 then rc else 0, w'))"
    by (simp add: sel n split: sum.splits prod.splits)
  from probe_select_decision [OF ok(3) ids(3) pref(3), of device_ready Usb_device]
  have 3: "probe_select device_ready Usb_device catalog_two =
     (case smi2021_load_firmware device_ready (Some Usb_device) (Some image_three) catalog_two of
        Inl f \<Rightarrow> Inl f
      | Inr (rc, w') \<Rightarrow> Inr (0, w'))"
    by (simp add: sel n split: sum.splits prod.splits)
  from probe_select_decision [OF ok(4) ids(4) pref(4), of device_ready Usb_device]
  have 4: "probe_select device_ready Usb_device (catalog_two\<lparr>firmware_version := 0\<rparr>) =
     Inr (0, catalog_two\<lparr>firmware_version := 0\<rparr>)"
    by (simp add: sel)
  from 1 2 3 4 show ?thesis
    by blast
qed

section \<open>Properties of the disconnect\<close>

lemma disconnect_loop_idle:
  assumes "\<forall>d\<in>set (available_fw w). found d < 0"
  shows "disconnect_loop (length (available_fw w)) i w = Inr w"
proof (induction "length (available_fw w) - i" arbitrary: i)
  case 0
  then show ?case
    by (subst disconnect_loop.simps) simp
next
  case (Suc m)
  then have i: "i < length (available_fw w)" by simp
  with assms have "found (available_fw w ! i) < 0" by simp
  then have b: "disconnect_body i w = Inr w"
    by (simp add: disconnect_body_def)
  have "m = length (available_fw w) - Suc i" using Suc.hyps(2) by simp
  from Suc.hyps(1) [OF this] i b show ?case
    by (subst disconnect_loop.simps) simp
qed

lemma disconnect_loop_run:
  assumes "length (available_fw w) = n" and "k \<le> length (firmware w)" and "m \<le> k"
    and "map found (filter (\<lambda>d. 0 \<le> found d) (drop i (available_fw w))) = map int [m..<k]"
  shows "\<exists>w'. disconnect_loop n i w = Inr w' \<and>
           fw_log w' = fw_log w @ map (\<lambda>j. Release_firmware (firmware w ! j)) [m..<k] \<and>
           firmware w' = take m (firmware w) @ replicate (k - m) None @ drop k (firmware w) \<and>
           available_fw w' = take i (available_fw w) @ map absent (drop i (available_fw w)) \<and>
           firmwares w' = firmwares w \<and> usb_log w' = usb_log w \<and>
           firmware_version w' = firmware_version w"
  using assms
proof (induction "n - i" arbitrary: i w m)
  case 0
  then have "drop i (available_fw w) = []" by simp
  with "0.prems"(3,4) have "m = k" by auto
  with 0 show ?case
    by (subst disconnect_loop.simps) simp
next
  case (Suc x)
  then have i: "i < length (available_fw w)" by simp
  let ?d = "available_fw w ! i"
  have dr: "drop i (available_fw w) = ?d # drop (Suc i) (available_fw w)"
    using i by (simp add: Cons_nth_drop_Suc)
  have x: "x = n - Suc i" using Suc.hyps(2) by simp
  show ?case
  proof (cases "0 \<le> found ?d")
    case False
    then have b: "disconnect_body i w = Inr w"
      by (simp add: disconnect_body_def)
    from Suc.prems(4) False
    have "map found (filter (\<lambda>d. 0 \<le> found d) (drop (Suc i) (available_fw w))) = map int [m..<k]"
      by (simp add: dr)
    from Suc.hyps(1) [OF x Suc.prems(1,2,3) this]
    obtain w' where r: "disconnect_loop n (Suc i) w = Inr w'"
      "fw_log w' = fw_log w @ map (\<lambda>j. Release_firmware (firmware w ! j)) [m..<k]"
      "firmware w' = take m (firmware w) @ replicate (k - m) None @ drop k (firmware w)"
      "available_fw w' = take (Suc i) (available_fw w) @ map absent (drop (Suc i) (available_fw w))"
      "firmwares w' = firmwares w" "usb_log w' = usb_log w"
      "firmware_version w' = firmware_version w"
      by blast
    have "take (Suc i) (available_fw w) @ map absent (drop (Suc i) (available_fw w)) =
          take i (available_fw w) @ map absent (drop i (available_fw w))"
      using i False by (simp add: dr take_Suc_conv_app_nth absent_def)
    with r i b Suc.prems(1) show ?thesis
      by (subst disconnect_loop.simps) simp
  next
    case True
    from Suc.prems(4) True
    have c: "found ?d # map found (filter (\<lambda>d. 0 \<le> found d) (drop (Suc i) (available_fw w))) =
             map int [m..<k]"
      by (simp add: dr)
    then have mk: "m < k"
      by (cases "m < k") auto
    then have up: "[m..<k] = m # [Suc m..<k]"
      by (simp add: upt_conv_Cons)
    from c up have fm: "found ?d = int m"
      and rest: "map found (filter (\<lambda>d. 0 \<le> found d) (drop (Suc i) (available_fw w))) =
                 map int [Suc m..<k]"
      by simp_all
    let ?w1 = "w\<lparr>fw_log := fw_log w @ [Release_firmware (firmware w ! m)],
                  firmware := (firmware w)[m := None],
                  available_fw := (available_fw w)[i := ?d\<lparr>found := - 1\<rparr>]\<rparr>"
    have b: "disconnect_body i w = Inr ?w1"
      using True fm mk Suc.prems(2)
      by (simp add: disconnect_body_def release_firmware_def Let_def)
    have p1: "length (available_fw ?w1) = n" using Suc.prems(1) by simp
    have p2: "k \<le> length (firmware ?w1)" using Suc.prems(2) by simp
    have p3: "Suc m \<le> k" using mk by simp
    have p4: "map found (filter (\<lambda>d. 0 \<le> found d) (drop (Suc i) (available_fw ?w1))) =
              map int [Suc m..<k]"
      using rest by simp
    from Suc.hyps(1) [OF x p1 p2 p3 p4]
    obtain w' where r: "disconnect_loop n (Suc i) ?w1 = Inr w'"
      "fw_log w' = fw_log ?w1 @ map (\<lambda>j. Release_firmware (firmware ?w1 ! j)) [Suc m..<k]"
      "firmware w' = take (Suc m) (firmware ?w1) @ replicate (k - Suc m) None @ drop k (firmware ?w1)"
      "available_fw w' = take (Suc i) (available_fw ?w1) @ map absent (drop (Suc i) (available_fw ?w1))"
      "firmwares w' = firmwares ?w1" "usb_log w' = usb_log ?w1"
      "firmware_version w' = firmware_version ?w1"
      by blast
    have l: "map (\<lambda>j. Release_firmware (firmware ?w1 ! j)) [Suc m..<k] =
             map (\<lambda>j. Release_firmware (firmware w ! j)) [Suc m..<k]"
      by (rule map_cong) simp_all
    have f: "take (Suc m) (firmware ?w1) @ replicate (k - Suc m) None @ drop k (firmware ?w1) =
             take m (firmware w) @ replicate (k - m) None @ drop k (firmware w)"
    proof -
      have "m < length (firmware w)" using mk Suc.prems(2) by simp
      then have "take (Suc m) ((firmware w)[m := None]) = take m (firmware w) @ [None]"
        by (simp add: take_Suc_conv_app_nth)
      moreover have "drop k ((firmware w)[m := None]) = drop k (firmware w)"
        using mk by simp
      moreover have "replicate (k - m) (None :: firmware option) = None # replicate (k - Suc m) None"
        using mk by (metis Suc_diff_Suc replicate_Suc)
      ultimately show ?thesis by simp
    qed
    have a: "take (Suc i) (available_fw ?w1) @ map absent (drop (Suc i) (available_fw ?w1)) =
             take i (available_fw w) @ map absent (drop i (available_fw w))"
    proof -
      have "take (Suc i) ((available_fw w)[i := ?d\<lparr>found := - 1\<rparr>]) =
            take i (available_fw w) @ [?d\<lparr>found := - 1\<rparr>]"
        using i by (simp add: take_Suc_conv_app_nth)
      moreover have "map absent (drop i (available_fw w)) =
            ?d\<lparr>found := - 1\<rparr> # map absent (drop (Suc i) (available_fw w))"
        using True by (subst dr) (simp add: absent_def)
      ultimately show ?thesis by simp
    qed
    have "disconnect_loop n i w = Inr w'"
      using i b r(1) Suc.prems(1) by (subst disconnect_loop.simps) simp
    moreover have "fw_log w' = fw_log w @ map (\<lambda>j. Release_firmware (firmware w ! j)) [m..<k]"
      using r(2) l up by simp
    moreover have "firmware w' = take m (firmware w) @ replicate (k - m) None @ drop k (firmware w)"
      using r(3) f by simp
    moreover have "available_fw w' = take i (available_fw w) @ map absent (drop i (available_fw w))"
      using r(4) a by simp
    ultimately show ?thesis
      using r(5,6,7) by simp
  qed
qed


lemma map_nth_take:
  "k \<le> length xs \<Longrightarrow> map (\<lambda>j. f (xs ! j)) [0..<k] = map f (take k xs)"
  by (simp add: list_eq_iff_nth_eq)

lemma catalog_ok_count:
  assumes "catalog_ok w"
  shows "length (present w) = nat (firmwares w + 1)"
    and "nat (firmwares w + 1) \<le> length (firmware w)"
    and "length (loaded w) = nat (firmwares w + 1)"
proof -
  let ?k = "nat (firmwares w + 1)"
  from assms have len: "length (firmware w) = length (available_fw w)"
    and fnd: "map found (present w) = map int [0..<?k]"
    by (simp_all add: catalog_ok_def)
  from fnd show k: "length (present w) = ?k"
    by (metis length_map length_upt minus_nat.diff_0)
  moreover have "length (present w) \<le> length (available_fw w)"
    by (simp add: present_def)
  ultimately show "?k \<le> length (firmware w)"
    using len by simp
  then show "length (loaded w) = ?k"
    by (simp add: loaded_def)
qed

lemma disconnect_idle:
  assumes "\<forall>d\<in>set (available_fw w). found d < 0" and "firmwares w = - 1"
  shows "smi2021_bootloader_disconnect w = Inr w"
proof -
  have "w\<lparr>firmwares := - 1\<rparr> = w"
    using assms(2) by (cases w) simp
  then show ?thesis
    by (simp add: smi2021_bootloader_disconnect_def disconnect_loop_idle [OF assms(1)])
qed

lemma catalog_3e_ok: "catalog_ok (catalog_3e v)"
  by (simp add: catalog_ok_def catalog_3e_def present_def)

lemma disconnect_catalog:
  assumes "catalog_ok w"
  shows "\<exists>w'. smi2021_bootloader_disconnect w = Inr w' \<and>
           fw_log w' = fw_log w @ map Release_firmware (loaded w) \<and>
           firmware w' = replicate (length (loaded w)) None @ drop (length (loaded w)) (firmware w) \<and>
           (\<forall>d\<in>set (available_fw w'). found d = - 1) \<and> firmwares w' = - 1 \<and>
           usb_log w' = usb_log w \<and>
           smi2021_bootloader_disconnect w' = Inr w' \<and>
           (loaded w = [] \<longrightarrow> w' = w)"
proof -
  let ?k = "nat (firmwares w + 1)"
  note cnt = catalog_ok_count [OF assms]
  from assms have fnd: "map found (present w) = map int [0..<?k]"
    and lo: "- 1 \<le> firmwares w"
    and ge: "\<forall>d\<in>set (available_fw w). - 1 \<le> found d"
    by (simp_all add: catalog_ok_def)
  have p: "map found (filter (\<lambda>d. 0 \<le> found d) (drop 0 (available_fw w))) = map int [0..<?k]"
    using fnd by (simp add: present_def)
  from disconnect_loop_run [OF refl cnt(2) _ p]
  obtain w1 where r: "disconnect_loop (length (available_fw w)) 0 w = Inr w1"
    "fw_log w1 = fw_log w @ map (\<lambda>j. Release_firmware (firmware w ! j)) [0..<?k]"
    "firmware w1 = take 0 (firmware w) @ replicate (?k - 0) None @ drop ?k (firmware w)"
    "available_fw w1 = take 0 (available_fw w) @ map absent (drop 0 (available_fw w))"
    "firmwares w1 = firmwares w" "usb_log w1 = usb_log w"
    by auto
  let ?w' = "w1\<lparr>firmwares := - 1\<rparr>"
  have 1: "smi2021_bootloader_disconnect w = Inr ?w'"
    using r(1) by (simp add: smi2021_bootloader_disconnect_def)
  have 2: "fw_log ?w' = fw_log w @ map Release_firmware (loaded w)"
    using r(2) cnt(2) by (simp add: loaded_def map_nth_take)
  have 3: "firmware ?w' = replicate (length (loaded w)) None @ drop (length (loaded w)) (firmware w)"
    using r(3) cnt(3) by simp
  have 4: "\<forall>d\<in>set (available_fw ?w'). found d = - 1"
    using r(4) ge by (auto simp: absent_def)
  then have "\<forall>d\<in>set (available_fw ?w'). found d < 0"
    by simp
  then have 5: "smi2021_bootloader_disconnect ?w' = Inr ?w'"
    by (rule disconnect_idle) simp
  have 6: "loaded w = [] \<longrightarrow> ?w' = w"
  proof
    assume "loaded w = []"
    with cnt(3) have k0: "?k = 0" by simp
    with cnt(1) have "present w = []" by simp
    then have "\<forall>d\<in>set (available_fw w). found d < 0"
      by (auto simp: present_def filter_empty_conv)
    moreover from k0 lo have "firmwares w = - 1" by simp
    ultimately have "smi2021_bootloader_disconnect w = Inr w"
      by (rule disconnect_idle)
    with 1 show "?w' = w" by simp
  qed
  from 1 2 3 4 5 6 r(6) show ?thesis
    by (intro exI [of _ ?w']) simp
qed

lemma disconnect_loop_absent:
  assumes "disconnect_loop n i w = Inr w'" and "length (available_fw w) = n"
  shows "length (available_fw w') = n \<and>
         (\<forall>j. i \<le> j \<and> j < n \<longrightarrow> found (available_fw w' ! j) < 0) \<and>
         (\<forall>j<i. available_fw w' ! j = available_fw w ! j)"
  using assms
proof (induction "n - i" arbitrary: i w)
  case 0
  then have "\<not> i < n" by simp
  with "0.prems" show ?case
    by (simp add: disconnect_loop.simps [of n i w])
next
  case (Suc x)
  then have i: "i < n" by simp
  from Suc.prems(1) i obtain w1 where b: "disconnect_body i w = Inr w1"
    and l: "disconnect_loop n (Suc i) w1 = Inr w'"
    by (simp add: disconnect_loop.simps [of n i w] split: sum.splits)
  from b have w1: "length (available_fw w1) = length (available_fw w)"
    "found (available_fw w1 ! i) < 0"
    "\<forall>j<i. available_fw w1 ! j = available_fw w ! j"
    using i Suc.prems(2)
    by (auto simp: disconnect_body_def release_firmware_def Let_def split: if_splits)
  have "x = n - Suc i" using Suc.hyps(2) by simp
  from Suc.hyps(1) [OF this l] w1(1) Suc.prems(2)
  have r: "length (available_fw w') = n"
    "\<forall>j. Suc i \<le> j \<and> j < n \<longrightarrow> found (available_fw w' ! j) < 0"
    "\<forall>j<Suc i. available_fw w' ! j = available_fw w1 ! j"
    by simp_all
  have "\<forall>j. i \<le> j \<and> j < n \<longrightarrow> found (available_fw w' ! j) < 0"
  proof (intro allI impI)
    fix j assume j: "i \<le> j \<and> j < n"
    then consider "j = i" | "Suc i \<le> j \<and> j < n" by linarith
    then show "found (available_fw w' ! j) < 0"
      using r w1(2) by cases simp_all
  qed
  moreover have "\<forall>j<i. available_fw w' ! j = available_fw w ! j"
    using r(3) w1(3) by simp
  ultimately show ?case
    using r(1) by simp
qed

lemma disconnect_twice:
  assumes "smi2021_bootloader_disconnect w = Inr w'"
  shows "smi2021_bootloader_disconnect w' = Inr w'"
proof -
  from assms obtain w1 where l: "disconnect_loop (length (available_fw w)) 0 w = Inr w1"
    and w': "w' = w1\<lparr>firmwares := - 1\<rparr>"
    by (auto simp: smi2021_bootloader_disconnect_def split: sum.splits)
  from disconnect_loop_absent [OF l refl]
  have "length (available_fw w1) = length (available_fw w)"
    and "\<forall>j<length (available_fw w). found (available_fw w1 ! j) < 0"
    by simp_all
  then have "\<forall>d\<in>set (available_fw w'). found d < 0"
    unfolding w' by (auto simp: in_set_conv_nth)
  moreover have "firmwares w' = - 1"
    unfolding w' by simp
  ultimately show ?thesis
    by (rule disconnect_idle)
qed

text \<open>
  In a state as the probe loop leaves it when it was entered with the counter at \<open>-1\<close>
  (\<open>catalog_ok\<close>), the disconnect releases the images of the
  loaded-image table, each one once and in the order of the slots, sets their slots to
  \<^verbatim>\<open>NULL\<close>, marks every descriptor absent and sets the counter to \<open>-1\<close>; and when
  the table is empty it returns the state it was given.  From every state, a second
  disconnect returns the state the first one left, the log of loader calls included, so
  that it releases nothing.
\<close>

lemma disconnect_releases_once:
  "(catalog_ok w \<longrightarrow>
      (\<exists>w'. smi2021_bootloader_disconnect w = Inr w' \<and>
            fw_log w' = fw_log w @ map Release_firmware (loaded w) \<and>
            firmware w' = replicate (length (loaded w)) None
                            @ drop (length (loaded w)) (firmware w) \<and>
            (\<forall>d\<in>set (available_fw w'). found d = - 1) \<and> firmwares w' = - 1 \<and>
            usb_log w' = usb_log w \<and>
            smi2021_bootloader_disconnect w' = Inr w' \<and>
            (loaded w = [] \<longrightarrow> w' = w))) \<and>
   (\<forall>w'. smi2021_bootloader_disconnect w = Inr w' \<longrightarrow>
          smi2021_bootloader_disconnect w' = Inr w')"
  using disconnect_catalog [of w] disconnect_twice [of w] by blast

lemma disconnect_releases_once_run:
  "\<exists>w'. smi2021_bootloader_disconnect (catalog_3e 0) = Inr w' \<and>
        fw_log w' = fw_log (catalog_3e 0) @ [Release_firmware (Some image_three)] \<and>
        firmware w' = [None, None, None] \<and>
        map found (available_fw w') = [- 1, - 1, - 1] \<and> firmwares w' = - 1 \<and>
        smi2021_bootloader_disconnect w' = Inr w'"
proof -
  have l: "loaded (catalog_3e 0) = [Some image_three]"
    by (simp add: loaded_def catalog_3e_def)
  have f: "firmware (catalog_3e 0) = [Some image_three, None, None]"
    by (simp add: catalog_3e_def)
  from disconnect_releases_once [of "catalog_3e 0", THEN conjunct1, THEN mp, OF catalog_3e_ok]
  obtain w' where r: "smi2021_bootloader_disconnect (catalog_3e 0) = Inr w'"
    "fw_log w' = fw_log (catalog_3e 0) @ map Release_firmware (loaded (catalog_3e 0))"
    "firmware w' = replicate (length (loaded (catalog_3e 0))) None
                     @ drop (length (loaded (catalog_3e 0))) (firmware (catalog_3e 0))"
    "\<forall>d\<in>set (available_fw w'). found d = - 1" "firmwares w' = - 1"
    by blast
  from disconnect_releases_once [of "catalog_3e 0", THEN conjunct2] r(1)
  have t: "smi2021_bootloader_disconnect w' = Inr w'"
    by blast
  have n: "length (available_fw w') = 3"
    using r(1)
    by (simp add: smi2021_bootloader_disconnect_def disconnect_loop.simps disconnect_body_def
          release_firmware_def catalog_3e_def Let_def split: sum.splits)
       auto
  have "map found (available_fw w') = replicate (length (available_fw w')) (- 1)"
    using r(4) by (simp add: list_eq_iff_nth_eq)
  then have m: "map found (available_fw w') = [- 1, - 1, - 1]"
    by (simp add: n numeral_3_eq_3)
  from r t m show ?thesis
    unfolding l f by (intro exI [of _ w']) simp
qed

section \<open>Runs of the whole probe\<close>

text \<open>
  The scenario of the specification's section 8: of the three files only
  \<^verbatim>\<open>smi2021_3e.bin\<close> is there, and the device is ready.  The probe loads the image
  into slot 0, uploads it without being given a preference, and returns 0; the transfers
  are the handshake read, the three chunk writes and the completion write.
\<close>

lemma probe_end_to_end:
  "smi2021_bootloader_probe device_ready Usb_device (module_init 0) =
     Inr (0, (catalog_3e 0)
              \<lparr>usb_log := [handshake_msg, chunk_msg image_three 0, chunk_msg image_three 1,
                           chunk_msg image_three 2, completion_msg]\<rparr>)"
proof -
  let ?w = "catalog_3e 0"
  have l: "length (available_fw (module_init 0)) = 3"
    by (simp add: module_init_def)
  have a: "kzalloc_ok device_ready"
    by (simp add: device_ready_def)
  have b: "length image_three = 62 * 3"
    by (simp add: image_three_def)
  have c: "usb_reply device_ready (usb_log ?w) handshake_msg = (2, 0x01 # 0x07 # [])"
    by (simp add: device_ready_def handshake_msg_def)
  have d: "(0::int) \<le> 2"
    by simp
  have f: "\<forall>i<3. 0 \<le> fst (usb_reply device_ready
              (usb_log ?w @ handshake_msg # map (chunk_msg image_three) [0..<i])
              (chunk_msg image_three i))"
    by (simp add: device_ready_def chunk_msg_def)
  have g: "0 \<le> fst (usb_reply device_ready
              (usb_log ?w @ handshake_msg # map (chunk_msg image_three) [0..<3])
              completion_msg)"
    by (simp add: device_ready_def completion_msg_def)
  have h: "[0..<3] = [0, 1, 2]"
    by (simp add: upt_rec numeral_3_eq_3)
  have u: "smi2021_load_firmware device_ready (Some Usb_device) (Some image_three) ?w =
             Inr (0, ?w\<lparr>usb_log := [handshake_msg, chunk_msg image_three 0,
                                     chunk_msg image_three 1, chunk_msg image_three 2,
                                     completion_msg]\<rparr>)"
    using load_firmware_runs [OF a b c d f g, of Usb_device] by (simp add: h catalog_3e_def)
  have s: "firmwares ?w = 0" "firmware ?w ! 0 = Some image_three" "length (firmware ?w) = 3"
    by (simp_all add: catalog_3e_def)
  show ?thesis
    by (simp add: smi2021_bootloader_probe_def l run_only_3e probe_select_def s u)
qed

text \<open>
  The theorems about the upload assume that \<^verbatim>\<open>kzalloc\<close> returns a buffer.  When it
  does not, the function writes through the null pointer in line 97, before the test of
  line 100.
\<close>

lemma load_firmware_no_memory:
  "\<not> kzalloc_ok e \<Longrightarrow>
     smi2021_load_firmware e (Some dev) fwp w = Inl Null_pointer_dereference"
  by (simp add: smi2021_load_firmware_def kzalloc_def)

section \<open>A probe after a failed probe\<close>

text \<open>
  The probe leaves by \<^verbatim>\<open>err_out\<close> (lines 206, 217 and 225 to 228) without resetting
  \<^verbatim>\<open>firmwares\<close> and without releasing what it has loaded; the disconnect does both
  (lines 241 to 246), but no disconnect follows a probe that returned an error.  So the
  next probe is entered with the counter and the slots the failed one left.

  The run followed here: a first probe, from the initial state, finds
  \<^verbatim>\<open>smi2021_3e.bin\<close>, loads it into slot 0, and fails in the upload because the handshake
  times out; it returns \<open>-110\<close> and leaves \<open>catalog_failed\<close>.  A second probe, the
  device being ready now, finds the same file: its loop leaves \<open>catalog_stale\<close>.
\<close>

lemma run_dead:
  "probe_loop device_dead 3 0 (module_init v) = Inr (None, catalog_3e v)"
  by (simp add: probe_loop.simps probe_body_def request_firmware_def device_dead_def
        only_3e_def module_init_def catalog_3e_def ENOENT_def Let_def)

lemma probe_dead_device:
  "smi2021_bootloader_probe device_dead Usb_device (module_init 0) = Inr (- 110, catalog_failed)"
proof -
  have l: "length (available_fw (module_init 0)) = 3"
    by (simp add: module_init_def)
  have h: "usb_reply device_dead (usb_log (catalog_3e 0)) handshake_msg = (- 110, [])"
    by (simp add: device_dead_def)
  have u: "smi2021_load_firmware device_dead (Some Usb_device) (Some image_three) (catalog_3e 0) =
             Inr (- 110, catalog_failed)"
    by (simp add: smi2021_load_firmware_def kzalloc_def fw_size_def FIRMWARE_CHUNK_SIZE_def
          FIRMWARE_HEADER_SIZE_def usb_control_msg_def store_zero Let_def image_three_def
          device_dead_def catalog_failed_def handshake_msg_def catalog_3e_def)
  have f: "firmwares (catalog_3e 0) = 0" "firmware (catalog_3e 0) ! 0 = Some image_three"
    "length (firmware (catalog_3e 0)) = 3"
    by (simp_all add: catalog_3e_def)
  show ?thesis
    by (simp add: smi2021_bootloader_probe_def l run_dead probe_select_def f u)
qed

lemma stale_loop:
  "probe_loop device_ready (length (available_fw catalog_failed)) 0 catalog_failed =
     Inr (None, catalog_stale)"
proof -
  have l: "length (available_fw catalog_failed) = 3"
    by (simp add: catalog_failed_def catalog_3e_def)
  show ?thesis
    unfolding l
    by (simp add: probe_loop.simps probe_body_def request_firmware_def device_ready_def
        only_3e_def catalog_failed_def catalog_3e_def catalog_stale_def ENOENT_def Let_def)
qed

lemma stale_select:
  "probe_select device_ready Usb_device catalog_stale = Inr (0, catalog_stale)"
proof -
  have c: "smi2021_choose_firmware device_ready (Some Usb_device) catalog_stale =
             Inr (0, catalog_stale)"
    by (simp add: smi2021_choose_firmware_def choose_loop.simps catalog_stale_def Let_def)
  have f: "firmwares catalog_stale = 1"
    by (simp add: catalog_stale_def)
  show ?thesis
    by (simp add: probe_select_def f c)
qed

lemma probe_again_no_upload:
  "smi2021_bootloader_probe device_ready Usb_device catalog_failed = Inr (0, catalog_stale)"
  by (simp add: smi2021_bootloader_probe_def stale_loop stale_select)

lemma stale_upload:
  "smi2021_load_firmware device_ready (Some Usb_device) (Some image_three) catalog_stale =
     Inr (0, catalog_stale
              \<lparr>usb_log := [handshake_msg, handshake_msg, chunk_msg image_three 0,
                           chunk_msg image_three 1, chunk_msg image_three 2,
                           completion_msg]\<rparr>)"
proof -
  let ?w = "catalog_stale"
  have a: "kzalloc_ok device_ready"
    by (simp add: device_ready_def)
  have b: "length image_three = 62 * 3"
    by (simp add: image_three_def)
  have c: "usb_reply device_ready (usb_log ?w) handshake_msg = (2, 0x01 # 0x07 # [])"
    by (simp add: device_ready_def handshake_msg_def)
  have d: "(0::int) \<le> 2"
    by simp
  have f: "\<forall>i<3. 0 \<le> fst (usb_reply device_ready
              (usb_log ?w @ handshake_msg # map (chunk_msg image_three) [0..<i])
              (chunk_msg image_three i))"
    by (simp add: device_ready_def chunk_msg_def)
  have g: "0 \<le> fst (usb_reply device_ready
              (usb_log ?w @ handshake_msg # map (chunk_msg image_three) [0..<3])
              completion_msg)"
    by (simp add: device_ready_def completion_msg_def)
  have h: "[0..<3] = [0, 1, 2]"
    by (simp add: upt_rec numeral_3_eq_3)
  show ?thesis
    using load_firmware_runs [OF a b c d f g, of Usb_device] by (simp add: h catalog_stale_def)
qed

lemma stale_disconnect:
  "smi2021_bootloader_disconnect catalog_stale = Inr catalog_leak"
  by (simp add: smi2021_bootloader_disconnect_def disconnect_loop.simps disconnect_body_def
        release_firmware_def catalog_stale_def catalog_leak_def Let_def)

text \<open>
  C6.  The second probe loop of this run ends without an error, and the loaded-image
  table is not in registration order.  The loop found one file, \<^verbatim>\<open>smi2021_3e.bin\<close>,
  and the table has two entries: slot 0 still holds what the failed probe loaded, and the
  image loaded now, the first and only one this loop found, is in slot 1, which is what
  its descriptor records.  Entered with the counter at \<open>-1\<close>, the same loop puts that
  image into slot 0 (\<open>probe_registration_order\<close>).
\<close>

theorem probe_table_stale_counter:
  "smi2021_bootloader_probe device_dead Usb_device (module_init 0) =
     Inr (- 110, catalog_failed) \<and>
   probe_loop device_ready (length (available_fw catalog_failed)) 0 catalog_failed =
     Inr (None, catalog_stale) \<and>
   map name (filter (loads device_ready) (available_fw catalog_failed)) = [''smi2021_3e.bin''] \<and>
   map (image_for device_ready) (filter (loads device_ready) (available_fw catalog_failed)) =
     [Some image_three] \<and>
   loaded catalog_stale = [Some image_three, Some image_three] \<and>
   map found (available_fw catalog_stale) = [- 1, 1, - 1]"
proof -
  have "map name (filter (loads device_ready) (available_fw catalog_failed)) =
          [''smi2021_3e.bin'']"
    by (simp add: loads_def device_ready_def only_3e_def catalog_failed_def catalog_3e_def
          ENOENT_def)
  moreover have "map (image_for device_ready)
                   (filter (loads device_ready) (available_fw catalog_failed)) =
                 [Some image_three]"
    by (simp add: loads_def image_for_def device_ready_def only_3e_def catalog_failed_def
          catalog_3e_def ENOENT_def)
  moreover have "loaded catalog_stale = [Some image_three, Some image_three]"
    by (simp add: loaded_def catalog_stale_def numeral_2_eq_2)
  moreover have "map found (available_fw catalog_stale) = [- 1, 1, - 1]"
    by (simp add: catalog_stale_def)
  ultimately show ?thesis
    using probe_dead_device stale_loop by simp
qed

text \<open>
  C5.  In the state the second probe loop left, exactly one descriptor is present, that
  of \<^verbatim>\<open>smi2021_3e.bin\<close>, and the decision table says: upload its image, with or without
  a preference.  The code tests the counter, which is 1, goes to
  \<^verbatim>\<open>smi2021_choose_firmware\<close>, finds no preference and returns 0 with the state
  unchanged: no transfer is made, although the device is ready and the upload of that
  image would have run to its end.  In a state whose counter agrees with its descriptors
  the code follows the table (\<open>probe_select_decision\<close>).
\<close>

theorem probe_select_stale_counter:
  "smi2021_bootloader_probe device_dead Usb_device (module_init 0) =
     Inr (- 110, catalog_failed) \<and>
   probe_loop device_ready (length (available_fw catalog_failed)) 0 catalog_failed =
     Inr (None, catalog_stale) \<and>
   map name (present catalog_stale) = [''smi2021_3e.bin''] \<and>
   select catalog_stale None = UploadOne (Some image_three) \<and>
   probe_select device_ready Usb_device catalog_stale = Inr (0, catalog_stale) \<and>
   smi2021_load_firmware device_ready (Some Usb_device) (Some image_three) catalog_stale =
     Inr (0, catalog_stale
              \<lparr>usb_log := [handshake_msg, handshake_msg, chunk_msg image_three 0,
                           chunk_msg image_three 1, chunk_msg image_three 2,
                           completion_msg]\<rparr>)"
proof -
  have "map name (present catalog_stale) = [''smi2021_3e.bin'']"
    by (simp add: present_def catalog_stale_def)
  moreover have "select catalog_stale None = UploadOne (Some image_three)"
    by (simp add: select_def present_def image_of_def catalog_stale_def)
  ultimately show ?thesis
    using probe_dead_device stale_loop stale_select stale_upload by simp
qed

text \<open>
  When the second probe finds no file at all, the counter is still 0 after its loop, no
  descriptor is present, and the code uploads the image the failed probe left in slot 0,
  where the decision table says that no firmware is available.
\<close>

lemma ghost_loop:
  "probe_loop device_ready_no_file (length (available_fw catalog_failed)) 0 catalog_failed =
     Inr (None, catalog_ghost)"
proof -
  have l: "length (available_fw catalog_failed) = 3"
    by (simp add: catalog_failed_def catalog_3e_def)
  show ?thesis
    unfolding l
    by (simp add: probe_loop.simps probe_body_def request_firmware_def device_ready_no_file_def
        no_file_def catalog_failed_def catalog_3e_def catalog_ghost_def ENOENT_def Let_def)
qed

lemma ghost_select:
  "select catalog_ghost None = NoFirmwareAvailable \<and>
   probe_select device_ready_no_file Usb_device catalog_ghost =
     Inr (0, catalog_ghost
              \<lparr>usb_log := [handshake_msg, handshake_msg, chunk_msg image_three 0,
                           chunk_msg image_three 1, chunk_msg image_three 2,
                           completion_msg]\<rparr>)"
proof -
  let ?w = "catalog_ghost"
  let ?e = "device_ready_no_file"
  have a: "kzalloc_ok ?e"
    by (simp add: device_ready_no_file_def)
  have b: "length image_three = 62 * 3"
    by (simp add: image_three_def)
  have c: "usb_reply ?e (usb_log ?w) handshake_msg = (2, 0x01 # 0x07 # [])"
    by (simp add: device_ready_no_file_def handshake_msg_def)
  have d: "(0::int) \<le> 2"
    by simp
  have f: "\<forall>i<3. 0 \<le> fst (usb_reply ?e
              (usb_log ?w @ handshake_msg # map (chunk_msg image_three) [0..<i])
              (chunk_msg image_three i))"
    by (simp add: device_ready_no_file_def chunk_msg_def)
  have g: "0 \<le> fst (usb_reply ?e
              (usb_log ?w @ handshake_msg # map (chunk_msg image_three) [0..<3])
              completion_msg)"
    by (simp add: device_ready_no_file_def completion_msg_def)
  have h: "[0..<3] = [0, 1, 2]"
    by (simp add: upt_rec numeral_3_eq_3)
  have u: "smi2021_load_firmware ?e (Some Usb_device) (Some image_three) ?w =
             Inr (0, ?w\<lparr>usb_log := [handshake_msg, handshake_msg, chunk_msg image_three 0,
                                     chunk_msg image_three 1, chunk_msg image_three 2,
                                     completion_msg]\<rparr>)"
    using load_firmware_runs [OF a b c d f g, of Usb_device] by (simp add: h catalog_ghost_def)
  have s: "firmwares ?w = 0" "firmware ?w ! 0 = Some image_three" "length (firmware ?w) = 3"
    by (simp_all add: catalog_ghost_def)
  have "select ?w None = NoFirmwareAvailable"
    by (simp add: select_def present_def catalog_ghost_def)
  moreover have "probe_select ?e Usb_device ?w =
     Inr (0, ?w\<lparr>usb_log := [handshake_msg, handshake_msg, chunk_msg image_three 0,
                             chunk_msg image_three 1, chunk_msg image_three 2,
                             completion_msg]\<rparr>)"
    by (simp add: probe_select_def s u)
  ultimately show ?thesis
    by simp
qed

text \<open>
  C8.  After the two probes of this run the array holds two loaded images, in the slots 0
  and 1.  The disconnect walks the descriptors, finds slot 1 recorded and releases that
  image; no descriptor records slot 0, so the image there is not released and its pointer
  stays in the array, while the counter is set to \<open>-1\<close>.  One release call is made for
  two loaded images.  In a state whose counter agrees with its descriptors every loaded
  image is released once (\<open>disconnect_releases_once\<close>).
\<close>

theorem disconnect_stale_counter:
  "smi2021_bootloader_probe device_dead Usb_device (module_init 0) =
     Inr (- 110, catalog_failed) \<and>
   smi2021_bootloader_probe device_ready Usb_device catalog_failed = Inr (0, catalog_stale) \<and>
   firmware catalog_stale = [Some image_three, Some image_three, None] \<and>
   smi2021_bootloader_disconnect catalog_stale = Inr catalog_leak \<and>
   fw_log catalog_leak = fw_log catalog_stale @ [Release_firmware (Some image_three)] \<and>
   firmware catalog_leak = [Some image_three, None, None] \<and>
   firmwares catalog_leak = - 1"
proof -
  have "firmware catalog_stale = [Some image_three, Some image_three, None]"
    by (simp add: catalog_stale_def)
  moreover have "fw_log catalog_leak =
                   fw_log catalog_stale @ [Release_firmware (Some image_three)]"
    by (simp add: catalog_stale_def catalog_leak_def)
  moreover have "firmware catalog_leak = [Some image_three, None, None]"
    by (simp add: catalog_leak_def)
  moreover have "firmwares catalog_leak = - 1"
    by (simp add: catalog_leak_def)
  ultimately show ?thesis
    using probe_dead_device probe_again_no_upload stale_disconnect by simp
qed

end
